theory Spec2Isabelle
  imports Main
begin

section \<open>Data model (types/game.ts)\<close>

text \<open>
  The string unions of the source are datatypes: \<open>'walls' | 'pass-through'\<close> is
  \<open>Walls | PassThrough\<close>, and \<open>'idle' | 'playing' | 'paused' | 'game-over'\<close> is
  \<open>Idle | Playing | Paused | GameOver\<close>.  Grid coordinates, scores and tick intervals are
  JavaScript numbers that only ever hold integers here; they are modelled as \<open>int\<close>.
  The fields \<open>x\<close> and \<open>y\<close> of \<open>Position\<close> are called \<open>posX\<close> and \<open>posY\<close>, so that
  \<open>x\<close> and \<open>y\<close> stay available as variable names.
\<close>

datatype Direction = UP | DOWN | LEFT | RIGHT

datatype GameMode = Walls | PassThrough

datatype GameStatus = Idle | Playing | Paused | GameOver

record Position =
  posX :: int
  posY :: int

record GameState =
  snake :: "Position list"
  food :: Position
  direction :: Direction
  nextDirection :: Direction
  score :: int
  highScore :: int
  status :: GameStatus
  mode :: GameMode
  speed :: int

text \<open>
  \<open>LivePlayer\<close> has the same field names as \<open>GameState\<close>; they carry the prefix \<open>lp_\<close>.
  The optional \<open>avatar\<close> is an \<open>option\<close>.
\<close>

record LivePlayer =
  lp_id :: string
  lp_username :: string
  lp_avatar :: "string option"
  lp_score :: int
  lp_mode :: GameMode
  lp_snake :: "Position list"
  lp_food :: Position
  lp_direction :: Direction
  lp_status :: GameStatus
  lp_viewers :: int

text \<open>Reading a field of \<open>undefined\<close> (the head of an empty snake) throws.\<close>

datatype error = TypeError

section \<open>Constants and pure helpers (hooks/useGameLogic.ts)\<close>

definition GRID_SIZE :: int where
  "GRID_SIZE = 20"

definition INITIAL_SPEED :: int where
  "INITIAL_SPEED = 150"

definition SPEED_INCREMENT :: int where
  "SPEED_INCREMENT = 5"

definition MIN_SPEED :: int where
  "MIN_SPEED = 50"

fun getOppositeDirection :: "Direction \<Rightarrow> Direction" where
  "getOppositeDirection UP = DOWN"
| "getOppositeDirection DOWN = UP"
| "getOppositeDirection LEFT = RIGHT"
| "getOppositeDirection RIGHT = LEFT"

text \<open>
  JavaScript's \<open>%\<close> truncates: the result has the sign of the dividend
  (\<open>-6 % 20 = -6\<close>), unlike \<open>mod\<close> on \<open>int\<close>.  The divisor is a positive grid size
  wherever the source uses it (for a zero divisor JavaScript yields \<open>NaN\<close>, which the
  integer model does not have).
\<close>

definition jsRem :: "int \<Rightarrow> int \<Rightarrow> int" where
  "jsRem a b = (if a < 0 then - ((- a) mod \<bar>b\<bar>) else a mod \<bar>b\<bar>)"

text \<open>
  \<open>Array.prototype.slice(start, end)\<close>: a negative index counts from the end, and both
  indices are clamped to the array.
\<close>

definition jsSlice :: "int \<Rightarrow> int \<Rightarrow> 'a list \<Rightarrow> 'a list" where
  "jsSlice start end xs =
     (let n = int (length xs);
          s = (if start < 0 then max (n + start) 0 else min start n);
          e = (if end < 0 then max (n + end) 0 else min end n)
      in take (nat (e - s)) (drop (nat s) xs))"

text \<open>\<open>calculateSpeed\<close>: \<open>Math.floor(score / 50)\<close> is \<open>div\<close> on \<open>int\<close> (both round down).\<close>

definition calculateSpeed :: "int \<Rightarrow> int" where
  "calculateSpeed sc =
     (let speedReduction = (sc div 50) * SPEED_INCREMENT
      in max MIN_SPEED (INITIAL_SPEED - speedReduction))"

text \<open>
  \<open>checkFoodCollision\<close> and \<open>growSnake\<close>.  \<open>growSnake\<close> appends a copy of the last cell.
  For the empty array the source yields \<open>[{}]\<close>, one cell without coordinates; the model
  has \<open>[last []]\<close> there, one cell about which nothing is known, and no theorem below
  applies \<open>growSnake\<close> to the empty list.
\<close>

definition checkFoodCollision :: "Position \<Rightarrow> Position \<Rightarrow> bool" where
  "checkFoodCollision head food' = (posX head = posX food' \<and> posY head = posY food')"

definition growSnake :: "Position list \<Rightarrow> Position list" where
  "growSnake snake' = (let tail = last snake' in snake' @ [tail])"

subsection \<open>moveSnake\<close>

text \<open>
  \<open>stepHead\<close> is the \<open>switch\<close> on the direction (lines 58 to 71), \<open>wrapHead\<close> the two
  assignments of pass-through mode (lines 75 and 76), \<open>outOfBounds\<close> the test of walls
  mode (line 79) and \<open>hitsBody\<close> the \<open>some\<close> over \<open>snake.slice(2, -1)\<close> (lines 85 to 88).
\<close>

fun stepHead :: "Position \<Rightarrow> Direction \<Rightarrow> Position" where
  "stepHead head UP = \<lparr>posX = posX head, posY = posY head - 1\<rparr>"
| "stepHead head DOWN = \<lparr>posX = posX head, posY = posY head + 1\<rparr>"
| "stepHead head LEFT = \<lparr>posX = posX head - 1, posY = posY head\<rparr>"
| "stepHead head RIGHT = \<lparr>posX = posX head + 1, posY = posY head\<rparr>"

definition wrapHead :: "Position \<Rightarrow> Position" where
  "wrapHead newHead =
     \<lparr>posX = jsRem (posX newHead + GRID_SIZE) GRID_SIZE,
      posY = jsRem (posY newHead + GRID_SIZE) GRID_SIZE\<rparr>"

definition outOfBounds :: "Position \<Rightarrow> bool" where
  "outOfBounds newHead =
     (posX newHead < 0 \<or> posX newHead \<ge> GRID_SIZE \<or> posY newHead < 0 \<or> posY newHead \<ge> GRID_SIZE)"

definition hitsBody :: "Position list \<Rightarrow> Position \<Rightarrow> bool" where
  "hitsBody snake' newHead =
     (let bodyToCheck = jsSlice 2 (- 1) snake'
      in list_ex (\<lambda>segment. posX segment = posX newHead \<and> posY segment = posY newHead) bodyToCheck)"

text \<open>
  The head the move proposes, after the wrap of pass-through mode; \<open>None\<close> where walls
  mode returns at line 80.
\<close>

definition proposedHead :: "Position \<Rightarrow> Direction \<Rightarrow> GameMode \<Rightarrow> Position option" where
  "proposedHead head direction' mode' =
     (let newHead = stepHead head direction'
      in if mode' = PassThrough then Some (wrapHead newHead)
         else if outOfBounds newHead then None
         else Some newHead)"

text \<open>
  \<open>moveSnake\<close> returns the pair \<open>(newSnake, collision)\<close>; on the empty snake \<open>head.x\<close>
  throws.
\<close>

definition moveSnake ::
  "Position list \<Rightarrow> Direction \<Rightarrow> GameMode \<Rightarrow> error + Position list \<times> bool" where
  "moveSnake snake' direction' mode' =
     (case snake' of
        [] \<Rightarrow> Inl TypeError
      | head # _ \<Rightarrow>
          (case proposedHead head direction' mode' of
             None \<Rightarrow> Inr (snake', True)
           | Some newHead \<Rightarrow>
               if hitsBody snake' newHead then Inr (snake', True)
               else Inr (newHead # jsSlice 0 (- 1) snake', False)))"

text \<open>
  The source reports a collision as one boolean.  \<open>collisionReason\<close> names the
  \<open>return\<close> that produced it: \<open>WALL\<close> for line 80, \<open>SELF\<close> for line 91, \<open>None\<close> for
  the normal return of line 95 (and for the empty snake, where nothing is returned).
\<close>

datatype CollisionReason = WALL | SELF

definition collisionReason ::
  "Position list \<Rightarrow> Direction \<Rightarrow> GameMode \<Rightarrow> CollisionReason option" where
  "collisionReason snake' direction' mode' =
     (case snake' of
        [] \<Rightarrow> None
      | head # _ \<Rightarrow>
          (case proposedHead head direction' mode' of
             None \<Rightarrow> Some WALL
           | Some newHead \<Rightarrow> if hitsBody snake' newHead then Some SELF else None))"

subsection \<open>Randomness and storage\<close>

text \<open>
  \<open>Math.random()\<close> is an infinite sequence \<open>rnd\<close> of outcomes read at a cursor: the
  \<open>c\<close>-th call yields the outcome \<open>rnd c\<close>, and the caller's cursor advances by one.
  \<open>Math.floor(Math.random() * n)\<close> is the outcome reduced to \<open>[0, n)\<close>, and
  \<open>Math.random() < 0.3\<close> holds for three outcomes in ten.
\<close>

definition randomBelow :: "(nat \<Rightarrow> nat) \<Rightarrow> nat \<Rightarrow> int \<Rightarrow> int" where
  "randomBelow rnd c n = int (rnd c) mod n"

definition randomChance30 :: "(nat \<Rightarrow> nat) \<Rightarrow> nat \<Rightarrow> bool" where
  "randomChance30 rnd c = (rnd c mod 10 < 3)"

text \<open>
  \<open>generateRandomPosition\<close> is a \<open>do ... while\<close> loop with no bound on its iterations; it
  returns the cell and the cursor after the last draw, and \<open>None\<close> when it never returns.
\<close>

partial_function (option) generateRandomPosition ::
  "(nat \<Rightarrow> nat) \<Rightarrow> nat \<Rightarrow> Position list \<Rightarrow> (Position \<times> nat) option" where
  "generateRandomPosition rnd c excludePositions =
     (let position = \<lparr>posX = randomBelow rnd c GRID_SIZE,
                      posY = randomBelow rnd (c + 1) GRID_SIZE\<rparr>
      in if list_ex (\<lambda>p. posX p = posX position \<and> posY p = posY position) excludePositions
         then generateRandomPosition rnd (c + 2) excludePositions
         else Some (position, c + 2))"

text \<open>
  \<open>localStorage\<close>, restricted to the keys \<open>snake_highscore_<mode>\<close>: the list of the
  \<open>setItem\<close> calls made so far, the latest first, each with the mode of its key and the
  integer whose decimal form was written.  \<open>getItem\<close> reads the latest value of a key.
\<close>

type_synonym storage = "(GameMode \<times> int) list"

definition setItem :: "GameMode \<Rightarrow> int \<Rightarrow> storage \<Rightarrow> storage" where
  "setItem k v st = (k, v) # st"

definition getItem :: "GameMode \<Rightarrow> storage \<Rightarrow> int option" where
  "getItem k st = map_of st k"

subsection \<open>The session: createInitialState and the operations of useGameLogic\<close>

text \<open>
  \<open>createInitialState\<close>: \<open>parseInt(localStorage.getItem(key) || '0')\<close> reads the integer last
  written under the key of the mode, and 0 when nothing was written.  \<open>resetGame\<close> takes
  the optional mode; cancelling the animation frame is scheduling and is not modelled.
\<close>

definition initialSnake :: "Position list" where
  "initialSnake =
     [\<lparr>posX = GRID_SIZE div 2, posY = GRID_SIZE div 2\<rparr>,
      \<lparr>posX = GRID_SIZE div 2 - 1, posY = GRID_SIZE div 2\<rparr>,
      \<lparr>posX = GRID_SIZE div 2 - 2, posY = GRID_SIZE div 2\<rparr>]"

definition createInitialState ::
  "(nat \<Rightarrow> nat) \<Rightarrow> nat \<Rightarrow> storage \<Rightarrow> GameMode \<Rightarrow> (GameState \<times> nat) option" where
  "createInitialState rnd c st mode' =
     (case generateRandomPosition rnd c initialSnake of
        None \<Rightarrow> None
      | Some (food', c') \<Rightarrow>
          Some (\<lparr>snake = initialSnake, food = food', direction = RIGHT, nextDirection = RIGHT,
                 score = 0,
                 highScore = (case getItem mode' st of None \<Rightarrow> 0 | Some v \<Rightarrow> v),
                 status = Idle, mode = mode', speed = INITIAL_SPEED\<rparr>, c'))"

definition resetGame ::
  "(nat \<Rightarrow> nat) \<Rightarrow> nat \<Rightarrow> storage \<Rightarrow> GameMode option \<Rightarrow> GameState \<Rightarrow> (GameState \<times> nat) option" where
  "resetGame rnd c st mode' gameState =
     createInitialState rnd c st (case mode' of None \<Rightarrow> mode gameState | Some m \<Rightarrow> m)"

definition startGame :: "GameState \<Rightarrow> GameState" where
  "startGame prev = prev\<lparr>status := Playing\<rparr>"

definition pauseGame :: "GameState \<Rightarrow> GameState" where
  "pauseGame prev = prev\<lparr>status := (if status prev = Playing then Paused else Playing)\<rparr>"

definition setDirection :: "Direction \<Rightarrow> GameState \<Rightarrow> GameState" where
  "setDirection newDirection prev =
     (if status prev \<noteq> Playing then prev
      else if newDirection = getOppositeDirection (direction prev) then prev
      else prev\<lparr>nextDirection := newDirection\<rparr>)"

definition setMode ::
  "(nat \<Rightarrow> nat) \<Rightarrow> nat \<Rightarrow> storage \<Rightarrow> GameMode \<Rightarrow> GameState \<Rightarrow> (GameState \<times> nat) option" where
  "setMode rnd c st mode' gameState = resetGame rnd c st (Some mode') gameState"

text \<open>
  The keyboard handler, for the space key and for Escape (lines 259 to 274): it tests the
  status before it calls an operation.  The status it tests is that of the state the
  operation is applied to.
\<close>

definition keySpace ::
  "(nat \<Rightarrow> nat) \<Rightarrow> nat \<Rightarrow> storage \<Rightarrow> GameState \<Rightarrow> (GameState \<times> nat) option" where
  "keySpace rnd c st gameState =
     (if status gameState = Idle then Some (startGame gameState, c)
      else if status gameState = Playing \<or> status gameState = Paused
        then Some (pauseGame gameState, c)
      else if status gameState = GameOver then resetGame rnd c st None gameState
      else Some (gameState, c))"

definition keyEscape :: "GameState \<Rightarrow> GameState" where
  "keyEscape gameState = (if status gameState = Playing then pauseGame gameState else gameState)"

text \<open>
  \<open>tick\<close> takes the random source with its cursor, the storage and the state, and returns
  the new state with the cursor and the storage as it left them: \<open>Inl\<close> when it throws,
  \<open>None\<close> when the food loop never returns.
\<close>

definition tick ::
  "(nat \<Rightarrow> nat) \<Rightarrow> nat \<Rightarrow> storage \<Rightarrow> GameState \<Rightarrow> (error + GameState \<times> nat \<times> storage) option" where
  "tick rnd c st prev =
     (if status prev \<noteq> Playing then Some (Inr (prev, c, st))
      else
        let direction' = nextDirection prev
        in case moveSnake (snake prev) direction' (mode prev) of
             Inl e \<Rightarrow> Some (Inl e)
           | Inr (newSnake, collision) \<Rightarrow>
               if collision then
                 Some (Inr (prev\<lparr>status := GameOver,
                                 highScore := max (score prev) (highScore prev)\<rparr>,
                            c,
                            if score prev > highScore prev
                            then setItem (mode prev) (score prev) st else st))
               else
                 (case newSnake of
                    [] \<Rightarrow> Some (Inl TypeError)
                  | head # _ \<Rightarrow>
                      if checkFoodCollision head (food prev) then
                        let grownSnake = growSnake newSnake;
                            newScore = score prev + 10;
                            newHighScore = max newScore (highScore prev);
                            st' = (if newScore > highScore prev
                                   then setItem (mode prev) newHighScore st else st)
                        in case generateRandomPosition rnd c grownSnake of
                             None \<Rightarrow> None
                           | Some (food', c') \<Rightarrow>
                               Some (Inr (prev\<lparr>snake := grownSnake, food := food',
                                               direction := direction', score := newScore,
                                               highScore := newHighScore,
                                               speed := calculateSpeed newScore\<rparr>,
                                          c', st'))
                      else Some (Inr (prev\<lparr>snake := newSnake, direction := direction'\<rparr>, c, st))))"

text \<open>
  The states a session can be in: those \<open>createInitialState\<close> builds, and those the
  operations of \<open>useGameLogic\<close> produce from them, whatever the random outcomes and the
  contents of the storage.
\<close>

inductive reachable :: "GameState \<Rightarrow> bool" where
  reach_init: "createInitialState rnd c st m = Some (s, c') \<Longrightarrow> reachable s"
| reach_start: "reachable s \<Longrightarrow> reachable (startGame s)"
| reach_pause: "reachable s \<Longrightarrow> reachable (pauseGame s)"
| reach_setDirection: "reachable s \<Longrightarrow> reachable (setDirection d s)"
| reach_tick: "reachable s \<Longrightarrow> tick rnd c st s = Some (Inr (s', c', st')) \<Longrightarrow> reachable s'"
| reach_reset: "reachable s \<Longrightarrow> resetGame rnd c st mo s = Some (s', c') \<Longrightarrow> reachable s'"

section \<open>The spectator simulation (api/mockApi.ts)\<close>

text \<open>
  \<open>generateRandomFood\<close> is the same unbounded loop with the grid size as a parameter.
  The theorems about this section take a positive grid size (the callers pass none, and
  the default is 20).
\<close>

partial_function (option) generateRandomFood ::
  "(nat \<Rightarrow> nat) \<Rightarrow> nat \<Rightarrow> int \<Rightarrow> Position list \<Rightarrow> (Position \<times> nat) option" where
  "generateRandomFood rnd c gridSize snake' =
     (let food' = \<lparr>posX = randomBelow rnd c gridSize,
                   posY = randomBelow rnd (c + 1) gridSize\<rparr>
      in if list_ex (\<lambda>segment. posX segment = posX food' \<and> posY segment = posY food') snake'
         then generateRandomFood rnd (c + 2) gridSize snake'
         else Some (food', c + 2))"

definition directions :: "Direction list" where
  "directions = [UP, DOWN, LEFT, RIGHT]"

text \<open>
  Lines 258 to 269: the random change of direction.  The index drawn is below the length
  of \<open>possibleDirections\<close>, which has three elements.
\<close>

definition chooseDirection :: "(nat \<Rightarrow> nat) \<Rightarrow> nat \<Rightarrow> Direction \<Rightarrow> Direction \<times> nat" where
  "chooseDirection rnd c direction' =
     (if randomChance30 rnd c then
        let possibleDirections =
              filter (\<lambda>d. \<not> (direction' = UP \<and> d = DOWN) \<and> \<not> (direction' = DOWN \<and> d = UP)
                        \<and> \<not> (direction' = LEFT \<and> d = RIGHT) \<and> \<not> (direction' = RIGHT \<and> d = LEFT))
                     directions
        in (possibleDirections ! nat (randomBelow rnd (c + 1) (int (length possibleDirections))),
            c + 2)
      else (direction', c + 1))"

text \<open>
  \<open>simulatePlayerTick\<close>: \<open>spectatorStep\<close> is the \<open>switch\<close> of lines 231 to 244, where only the
  coordinate that moves is reduced.  \<open>newSnake.pop()\<close> is \<open>butlast\<close>.  The result carries the
  cursor after the last call of \<open>Math.random\<close>; it is \<open>Inl\<close> when \<open>head.x\<close> throws on the
  empty snake and \<open>None\<close> when the food loop never returns.
\<close>

fun spectatorStep :: "int \<Rightarrow> Position \<Rightarrow> Direction \<Rightarrow> Position" where
  "spectatorStep gridSize head UP =
     \<lparr>posX = posX head, posY = jsRem (posY head - 1 + gridSize) gridSize\<rparr>"
| "spectatorStep gridSize head DOWN =
     \<lparr>posX = posX head, posY = jsRem (posY head + 1) gridSize\<rparr>"
| "spectatorStep gridSize head LEFT =
     \<lparr>posX = jsRem (posX head - 1 + gridSize) gridSize, posY = posY head\<rparr>"
| "spectatorStep gridSize head RIGHT =
     \<lparr>posX = jsRem (posX head + 1) gridSize, posY = posY head\<rparr>"

definition simulatePlayerTick ::
  "(nat \<Rightarrow> nat) \<Rightarrow> nat \<Rightarrow> LivePlayer \<Rightarrow> int \<Rightarrow> (error + LivePlayer \<times> nat) option" where
  "simulatePlayerTick rnd c player gridSize =
     (case lp_snake player of
        [] \<Rightarrow> Some (Inl TypeError)
      | head # _ \<Rightarrow>
          let newHead = spectatorStep gridSize head (lp_direction player);
              newSnake = newHead # lp_snake player
          in case (if posX newHead = posX (lp_food player) \<and> posY newHead = posY (lp_food player)
                   then map_option (\<lambda>(newFood, c1). (newSnake, newFood, lp_score player + 10, c1))
                          (generateRandomFood rnd c gridSize newSnake)
                   else Some (butlast newSnake, lp_food player, lp_score player, c))
             of None \<Rightarrow> None
              | Some (newSnake', newFood, newScore, c1) \<Rightarrow>
                  let (newDirection, c2) = chooseDirection rnd c1 (lp_direction player)
                  in Some (Inr (player\<lparr>lp_snake := newSnake', lp_food := newFood,
                                       lp_direction := newDirection, lp_score := newScore\<rparr>,
                                c2)))"

subsection \<open>The simulation on a store of objects\<close>

text \<open>
  The same two functions once more, on a store, to follow what they do to the objects
  they are handed.  A JavaScript value of type \<open>Position\<close>, \<open>Position[]\<close> or \<open>LivePlayer\<close> is a
  reference.  The store maps the references in use to what they denote: \<open>cells\<close> holds the
  \<open>{x, y}\<close> objects, \<open>arrays\<close> the arrays of references to them, \<open>players\<close> the \<open>LivePlayer\<close>
  objects, whose fields \<open>snake\<close> and \<open>food\<close> are references; strings, numbers and the
  enumerations are values.  \<open>fresh\<close> is the next reference to hand out.
\<close>

record PlayerObject =
  o_id :: string
  o_username :: string
  o_avatar :: "string option"
  o_score :: int
  o_mode :: GameMode
  o_snake :: nat
  o_food :: nat
  o_direction :: Direction
  o_status :: GameStatus
  o_viewers :: int

record Store =
  cells :: "nat \<rightharpoonup> Position"
  arrays :: "nat \<rightharpoonup> nat list"
  players :: "nat \<rightharpoonup> PlayerObject"
  fresh :: nat

text \<open>
  An object literal (\<open>{x: ..., y: ...}\<close>, \<open>{...player, ...}\<close>) and an array literal
  (\<open>[newHead, ...snake]\<close>) allocate: the new object is stored at \<open>fresh\<close>, and nothing else
  of the store changes.
\<close>

definition newCell :: "Position \<Rightarrow> Store \<Rightarrow> nat \<times> Store" where
  "newCell v s = (fresh s, s\<lparr>cells := (cells s)(fresh s \<mapsto> v), fresh := Suc (fresh s)\<rparr>)"

definition newArray :: "nat list \<Rightarrow> Store \<Rightarrow> nat \<times> Store" where
  "newArray refs s = (fresh s, s\<lparr>arrays := (arrays s)(fresh s \<mapsto> refs), fresh := Suc (fresh s)\<rparr>)"

definition newPlayer :: "PlayerObject \<Rightarrow> Store \<Rightarrow> nat \<times> Store" where
  "newPlayer v s = (fresh s, s\<lparr>players := (players s)(fresh s \<mapsto> v), fresh := Suc (fresh s)\<rparr>)"

text \<open>
  \<open>newSnake.pop()\<close> writes to the array its reference denotes, in place.  It is the only
  statement of \<open>simulatePlayerTick\<close> that writes to an object that exists already.
  \<open>readArray\<close> is what \<open>snake.some\<close> visits: the cells the elements of the array denote.
\<close>

definition popArray :: "nat \<Rightarrow> Store \<Rightarrow> Store" where
  "popArray a s =
     (case arrays s a of
        None \<Rightarrow> s
      | Some refs \<Rightarrow> s\<lparr>arrays := (arrays s)(a \<mapsto> butlast refs)\<rparr>)"

definition readArray :: "Store \<Rightarrow> nat \<Rightarrow> Position list option" where
  "readArray s a =
     (case arrays s a of
        None \<Rightarrow> None
      | Some refs \<Rightarrow> those (map (cells s) refs))"

text \<open>
  \<open>generateRandomFood\<close>, lines 61 to 70: every iteration allocates the object it draws.  A
  reference that denotes nothing has no counterpart in JavaScript; reading through it is
  modelled as the \<open>TypeError\<close> of a property access on \<open>undefined\<close>.
\<close>

partial_function (option) generateRandomFood_store ::
  "(nat \<Rightarrow> nat) \<Rightarrow> nat \<Rightarrow> int \<Rightarrow> nat \<Rightarrow> Store \<Rightarrow> (error + nat \<times> nat \<times> Store) option" where
  "generateRandomFood_store rnd c gridSize snakeRef s =
     (case newCell \<lparr>posX = randomBelow rnd c gridSize,
                     posY = randomBelow rnd (c + 1) gridSize\<rparr> s of
        (foodRef, s1) \<Rightarrow>
          (case (cells s1 foodRef, readArray s1 snakeRef) of
             (Some food', Some segments) \<Rightarrow>
               if list_ex (\<lambda>segment. posX segment = posX food' \<and> posY segment = posY food')
                    segments
               then generateRandomFood_store rnd (c + 2) gridSize snakeRef s1
               else Some (Inr (foodRef, c + 2, s1))
           | _ \<Rightarrow> Some (Inl TypeError)))"

text \<open>
  \<open>simulatePlayerTick\<close>, lines 225 to 278.  The destructuring reads the fields of the
  object at \<open>playerRef\<close>; \<open>snake[0]\<close> is the first reference of its array.  The new head is a
  new cell, \<open>[newHead, ...snake]\<close> a new array that shares the cells of the old one,
  \<open>newSnake.pop()\<close> shortens that new array, and the object returned is a new one that
  shares the food cell when nothing was eaten.
\<close>

definition simulatePlayerTick_store ::
  "(nat \<Rightarrow> nat) \<Rightarrow> nat \<Rightarrow> nat \<Rightarrow> int \<Rightarrow> Store \<Rightarrow> (error + nat \<times> nat \<times> Store) option" where
  "simulatePlayerTick_store rnd c playerRef gridSize s =
     (case players s playerRef of
        None \<Rightarrow> Some (Inl TypeError)
      | Some player \<Rightarrow>
          (case arrays s (o_snake player) of
             None \<Rightarrow> Some (Inl TypeError)
           | Some [] \<Rightarrow> Some (Inl TypeError)
           | Some (headRef # snakeRest) \<Rightarrow>
               (case cells s headRef of
                  None \<Rightarrow> Some (Inl TypeError)
                | Some head \<Rightarrow>
                    (case newCell (spectatorStep gridSize head (o_direction player)) s of
                       (newHeadRef, s1) \<Rightarrow>
                         (case newArray (newHeadRef # headRef # snakeRest) s1 of
                            (newSnakeRef, s2) \<Rightarrow>
                              (case (cells s2 newHeadRef, cells s2 (o_food player)) of
                                 (Some newHead, Some food') \<Rightarrow>
                                   (case (if posX newHead = posX food' \<and> posY newHead = posY food'
                                          then (case generateRandomFood_store rnd c gridSize newSnakeRef s2 of
                                                  None \<Rightarrow> None
                                                | Some (Inl e) \<Rightarrow> Some (Inl e)
                                                | Some (Inr (newFoodRef, c1, s3)) \<Rightarrow>
                                                    Some (Inr (newFoodRef, o_score player + 10, c1, s3)))
                                          else Some (Inr (o_food player, o_score player, c,
                                                          popArray newSnakeRef s2)))
                                    of
                                      None \<Rightarrow> None
                                    | Some (Inl e) \<Rightarrow> Some (Inl e)
                                    | Some (Inr (newFoodRef, newScore, c1, s4)) \<Rightarrow>
                                        (case chooseDirection rnd c1 (o_direction player) of
                                           (newDirection, c2) \<Rightarrow>
                                             (case newPlayer (player\<lparr>o_snake := newSnakeRef,
                                                                     o_food := newFoodRef,
                                                                     o_direction := newDirection,
                                                                     o_score := newScore\<rparr>) s4 of
                                                (resultRef, s5) \<Rightarrow> Some (Inr (resultRef, c2, s5)))))
                               | _ \<Rightarrow> Some (Inl TypeError)))))))"

section \<open>Notions used to state the properties\<close>

text \<open>
  The cell a loop iteration draws when its cursor is \<open>c\<close>, on a grid of size \<open>n\<close>, and
  the outcome of rejection sampling: \<open>firstFree\<close> holds of the first drawn cell that is
  not in \<open>ex\<close>, paired with the cursor after that draw.
\<close>

definition drawnCell :: "(nat \<Rightarrow> nat) \<Rightarrow> nat \<Rightarrow> int \<Rightarrow> Position" where
  "drawnCell rnd c n = \<lparr>posX = randomBelow rnd c n, posY = randomBelow rnd (c + 1) n\<rparr>"

definition firstFree ::
  "(nat \<Rightarrow> nat) \<Rightarrow> nat \<Rightarrow> int \<Rightarrow> Position list \<Rightarrow> Position \<times> nat \<Rightarrow> bool" where
  "firstFree rnd c n ex y =
     (\<exists>k. y = (drawnCell rnd (c + 2 * k) n, c + 2 * k + 2)
          \<and> drawnCell rnd (c + 2 * k) n \<notin> set ex
          \<and> (\<forall>j<k. drawnCell rnd (c + 2 * j) n \<in> set ex))"

definition inGrid :: "int \<Rightarrow> Position \<Rightarrow> bool" where
  "inGrid n p = (0 \<le> posX p \<and> posX p < n \<and> 0 \<le> posY p \<and> posY p < n)"

text \<open>
  A path through all 400 cells of the board: column 0 downwards from \<open>(0,0)\<close>, column 1
  upwards, and so on, ending at \<open>(19,0)\<close>.  \<open>crowdedSnake\<close> is that path without its first
  cell \<open>(0,0)\<close> and with its last cell doubled: a snake that has just grown and fills the
  board except for the cell \<open>(0,0)\<close> above its head \<open>(0,1)\<close>.
\<close>

definition boardColumn :: "nat \<Rightarrow> Position list" where
  "boardColumn i =
     map (\<lambda>j. \<lparr>posX = int i, posY = (if even i then int j else 19 - int j)\<rparr>) [0..<20]"

definition boardPath :: "Position list" where
  "boardPath = concat (map boardColumn [0..<20])"

definition crowdedSnake :: "Position list" where
  "crowdedSnake = tl boardPath @ [\<lparr>posX = 19, posY = 0\<rparr>]"

text \<open>
  A session in play on that snake, in pass-through mode, with the food on the free cell
  and the pending direction towards it.
\<close>

definition crowdedSession :: GameState where
  "crowdedSession =
     \<lparr>snake = crowdedSnake, food = \<lparr>posX = 0, posY = 0\<rparr>, direction = UP, nextDirection = UP,
      score = 3970, highScore = 3970, status = Playing, mode = PassThrough, speed = 50\<rparr>"

text \<open>
  A spectated player whose snake is the board path without its first cell, heading for
  the food on that cell.
\<close>

definition crowdedPlayer :: LivePlayer where
  "crowdedPlayer =
     \<lparr>lp_id = ''live1'', lp_username = ''StreamerPro'', lp_avatar = None, lp_score = 3960,
      lp_mode = Walls, lp_snake = tl boardPath, lp_food = \<lparr>posX = 0, posY = 0\<rparr>,
      lp_direction = UP, lp_status = Playing, lp_viewers = 42\<rparr>"

text \<open>The neighbour of a cell on the torus of size \<open>n\<close>.\<close>

definition torusStep :: "int \<Rightarrow> Position \<Rightarrow> Direction \<Rightarrow> Position" where
  "torusStep n p d = \<lparr>posX = posX (stepHead p d) mod n, posY = posY (stepHead p d) mod n\<rparr>"

text \<open>
  What every reachable session satisfies: the snake has a head and a second segment on the
  board, the head is one step from the second segment in the committed direction (across
  the edge in pass-through mode), and the pending direction is not the reversal of the
  committed one.
\<close>

definition sessionInvariant :: "GameState \<Rightarrow> bool" where
  "sessionInvariant s =
     (case snake s of
        h # n # _ \<Rightarrow>
          inGrid GRID_SIZE h \<and> inGrid GRID_SIZE n
          \<and> h = wrapHead (stepHead n (direction s))
          \<and> nextDirection s \<noteq> getOppositeDirection (direction s)
      | _ \<Rightarrow> False)"

text \<open>
  The \<open>LivePlayer\<close> value that reference \<open>r\<close> denotes in store \<open>s\<close>: the object at \<open>r\<close> with
  its \<open>snake\<close> and \<open>food\<close> references followed.
\<close>

definition snapshot :: "Store \<Rightarrow> nat \<Rightarrow> LivePlayer option" where
  "snapshot s r =
     (case players s r of
        None \<Rightarrow> None
      | Some ob \<Rightarrow>
          (case (readArray s (o_snake ob), cells s (o_food ob)) of
             (Some segments, Some food') \<Rightarrow>
               Some \<lparr>lp_id = o_id ob, lp_username = o_username ob, lp_avatar = o_avatar ob,
                     lp_score = o_score ob, lp_mode = o_mode ob, lp_snake = segments,
                     lp_food = food', lp_direction = o_direction ob, lp_status = o_status ob,
                     lp_viewers = o_viewers ob\<rparr>
           | _ \<Rightarrow> None))"

text \<open>
  The invariant of allocation: every reference in use is below \<open>fresh\<close>.  \<open>untouched s s'\<close>:
  every object of \<open>s\<close> is in \<open>s'\<close> as it was.  \<open>extends s s'\<close>: \<open>s'\<close> agrees with \<open>s\<close> on every
  reference \<open>s\<close> has handed out.
\<close>

definition wellFormed :: "Store \<Rightarrow> bool" where
  "wellFormed s =
     ((\<forall>a. a \<in> dom (cells s) \<longrightarrow> a < fresh s)
      \<and> (\<forall>a. a \<in> dom (arrays s) \<longrightarrow> a < fresh s)
      \<and> (\<forall>a. a \<in> dom (players s) \<longrightarrow> a < fresh s))"

definition untouched :: "Store \<Rightarrow> Store \<Rightarrow> bool" where
  "untouched s s' =
     ((\<forall>a. a \<in> dom (cells s) \<longrightarrow> cells s' a = cells s a)
      \<and> (\<forall>a. a \<in> dom (arrays s) \<longrightarrow> arrays s' a = arrays s a)
      \<and> (\<forall>a. a \<in> dom (players s) \<longrightarrow> players s' a = players s a))"

definition extends :: "Store \<Rightarrow> Store \<Rightarrow> bool" where
  "extends s s' =
     (fresh s \<le> fresh s'
      \<and> (\<forall>a<fresh s. cells s' a = cells s a \<and> arrays s' a = arrays s a
                       \<and> players s' a = players s a))"

text \<open>
  The end of \<open>simulatePlayerTick\<close> on the store, from the choice of the direction: the
  reference of the object returned, the cursor and the store.
\<close>

definition finishTick ::
  "(nat \<Rightarrow> nat) \<Rightarrow> PlayerObject \<Rightarrow> nat \<Rightarrow> nat \<Rightarrow> int \<Rightarrow> nat \<Rightarrow> Store \<Rightarrow> nat \<times> nat \<times> Store" where
  "finishTick rnd player newSnakeRef newFoodRef newScore c1 s4 =
     (fresh s4, snd (chooseDirection rnd c1 (o_direction player)),
      snd (newPlayer (player\<lparr>o_snake := newSnakeRef, o_food := newFoodRef,
                             o_direction := fst (chooseDirection rnd c1 (o_direction player)),
                             o_score := newScore\<rparr>) s4))"

section \<open>Lists, cells and the remainder\<close>

lemma nat_int_minus: "0 \<le> k \<Longrightarrow> nat (int n - k) = n - nat k"
  by arith

lemma jsSlice_body: "jsSlice 2 (- 1) xs = butlast (drop 2 xs)"
  by (auto simp: jsSlice_def Let_def butlast_conv_take max_def min_def nat_int_minus)

lemma jsSlice_init: "jsSlice 0 (- 1) xs = butlast xs"
  by (auto simp: jsSlice_def Let_def butlast_conv_take max_def nat_int_minus)

lemma Position_eq_iff: "(posX p = posX q \<and> posY p = posY q) = (p = (q::Position))"
  by (cases p; cases q) simp

lemma occupied_iff:
  "list_ex (\<lambda>p. posX p = posX q \<and> posY p = posY q) ps = ((q::Position) \<in> set ps)"
  using Position_eq_iff [of _ q] by (auto simp: list_ex_iff)

lemma hitsBody_iff: "hitsBody snake' h = (h \<in> set (butlast (drop 2 snake')))"
  by (simp add: hitsBody_def jsSlice_body occupied_iff)

lemma checkFoodCollision_iff: "checkFoodCollision h f = (h = f)"
  by (simp add: checkFoodCollision_def Position_eq_iff)

lemma jsRem_nonneg: "0 \<le> a \<Longrightarrow> 0 < b \<Longrightarrow> jsRem a b = a mod b"
  by (simp add: jsRem_def)

lemma length_growSnake: "length (growSnake xs) = length xs + 1"
  by (simp add: growSnake_def)

lemma set_growSnake: "xs \<noteq> [] \<Longrightarrow> set (growSnake xs) = set xs"
  by (auto simp: growSnake_def Let_def)

lemma growSnake_Cons: "growSnake (a # xs) = a # (xs @ [last (a # xs)])"
  by (simp add: growSnake_def)

lemma nth_three_neq:
  "i < 3 \<Longrightarrow> x \<noteq> a \<Longrightarrow> x \<noteq> b \<Longrightarrow> x \<noteq> c \<Longrightarrow> ([a, b, c] ! i = x) = False"
  by (cases i; simp; (rename_tac j, case_tac j; simp))

section \<open>Steps on the board\<close>

lemma wrap_coordinate: "- 20 \<le> v \<Longrightarrow> jsRem (v + 20) 20 = v mod 20"
  by (simp add: jsRem_def)

lemma stepHead_near:
  assumes "inGrid GRID_SIZE h"
  shows "- 20 \<le> posX (stepHead h d)" and "- 20 \<le> posY (stepHead h d)"
  using assms by (cases d; simp add: inGrid_def GRID_SIZE_def)+

lemma wrapHead_stepHead:
  assumes "inGrid GRID_SIZE h"
  shows "wrapHead (stepHead h d) =
           \<lparr>posX = posX (stepHead h d) mod GRID_SIZE, posY = posY (stepHead h d) mod GRID_SIZE\<rparr>"
  using stepHead_near [OF assms, of d]
  by (simp add: wrapHead_def GRID_SIZE_def wrap_coordinate)

lemma wrapHead_inGrid:
  assumes "inGrid GRID_SIZE h"
  shows "inGrid GRID_SIZE (wrapHead (stepHead h d))"
  unfolding wrapHead_stepHead [OF assms] by (simp add: inGrid_def GRID_SIZE_def)

lemma wrapHead_id: "inGrid GRID_SIZE p \<Longrightarrow> wrapHead p = p"
  by (cases p) (simp add: wrapHead_def inGrid_def GRID_SIZE_def jsRem_nonneg)







lemma spectatorStep_torus:
  assumes "0 < g" and "inGrid g h"
  shows "spectatorStep g h d = torusStep g h d"
  using assms
  by (cases d) (simp_all add: torusStep_def inGrid_def jsRem_nonneg)

lemma torusStep_inGrid: "0 < g \<Longrightarrow> inGrid g (torusStep g h d)"
  by (simp add: torusStep_def inGrid_def)

section \<open>The difficulty curve\<close>

lemma calculateSpeed_unfold:
  "calculateSpeed sc = max 50 (150 - (sc div 50) * 5)"
  by (simp add: calculateSpeed_def MIN_SPEED_def INITIAL_SPEED_def SPEED_INCREMENT_def)

lemma calculateSpeed_antimono:
  assumes "sc \<le> sc'"
  shows "calculateSpeed sc' \<le> calculateSpeed sc"
proof -
  from assms have "sc div 50 \<le> sc' div 50"
    by (rule zdiv_mono1) simp
  then show ?thesis
    unfolding calculateSpeed_unfold by linarith
qed

text \<open>
  C7.  For every integer score (in particular every non-negative one),
  \<open>calculateSpeed score = max 50 (150 - floor (score / 50) * 5)\<close>; the interval never
  grows when the score grows, it is at least 50 and therefore positive, and
  \<open>calculateSpeed 0 = 150\<close>, \<open>calculateSpeed 50 = 145\<close>, \<open>calculateSpeed 100000 = 50\<close>.
\<close>

theorem calculateSpeed_curve:
  "0 \<le> sc \<longrightarrow>
     calculateSpeed sc = max 50 (150 - (sc div 50) * 5)
     \<and> (\<forall>sc'. sc \<le> sc' \<longrightarrow> calculateSpeed sc' \<le> calculateSpeed sc)
     \<and> 50 \<le> calculateSpeed sc
     \<and> 0 < calculateSpeed sc
     \<and> calculateSpeed 0 = 150
     \<and> calculateSpeed 50 = 145
     \<and> calculateSpeed 100000 = 50"
proof (intro impI conjI allI)
  show "calculateSpeed sc = max 50 (150 - (sc div 50) * 5)"
    by (rule calculateSpeed_unfold)
  show "calculateSpeed sc' \<le> calculateSpeed sc" if "sc \<le> sc'" for sc'
    using that by (rule calculateSpeed_antimono)
  show "50 \<le> calculateSpeed sc"
    by (simp add: calculateSpeed_unfold)
  show "0 < calculateSpeed sc"
    by (simp add: calculateSpeed_unfold)
  show "calculateSpeed 0 = 150" "calculateSpeed 50 = 145" "calculateSpeed 100000 = 50"
    by (simp_all add: calculateSpeed_unfold)
qed

theorem calculateSpeed_curve_witness:
  "(0::int) \<le> 120 \<and> (120::int) \<le> 260
   \<and> calculateSpeed 120 = 140 \<and> calculateSpeed 260 \<le> calculateSpeed 120
   \<and> calculateSpeed 260 = 125"
  using calculateSpeed_curve [of 120] by (simp add: calculateSpeed_unfold)

section \<open>The food loop\<close>

lemma firstFree_here:
  "drawnCell rnd c n \<notin> set ex \<Longrightarrow> firstFree rnd c n ex (drawnCell rnd c n, c + 2)"
  unfolding firstFree_def by (intro exI [of _ 0]) simp

lemma firstFree_later:
  assumes occ: "drawnCell rnd c n \<in> set ex" and later: "firstFree rnd (c + 2) n ex y"
  shows "firstFree rnd c n ex y"
proof -
  from later obtain k where k:
    "y = (drawnCell rnd (c + 2 + 2 * k) n, c + 2 + 2 * k + 2)"
    "drawnCell rnd (c + 2 + 2 * k) n \<notin> set ex"
    "\<forall>j<k. drawnCell rnd (c + 2 + 2 * j) n \<in> set ex"
    unfolding firstFree_def by blast
  have "drawnCell rnd (c + 2 * j) n \<in> set ex" if "j < Suc k" for j
  proof (cases j)
    case 0
    with occ show ?thesis by simp
  next
    case (Suc i)
    with that k(3) have "drawnCell rnd (c + 2 + 2 * i) n \<in> set ex" by simp
    with Suc show ?thesis by (simp add: add.assoc)
  qed
  with k(1,2) show ?thesis
    unfolding firstFree_def by (intro exI [of _ "Suc k"]) (simp add: add.assoc)
qed

lemma firstFree_unique:
  assumes "firstFree rnd c n ex y" and "firstFree rnd c n ex z"
  shows "y = z"
proof -
  from assms obtain k l where
    k: "y = (drawnCell rnd (c + 2 * k) n, c + 2 * k + 2)"
      "drawnCell rnd (c + 2 * k) n \<notin> set ex" "\<forall>j<k. drawnCell rnd (c + 2 * j) n \<in> set ex"
    and l: "z = (drawnCell rnd (c + 2 * l) n, c + 2 * l + 2)"
      "drawnCell rnd (c + 2 * l) n \<notin> set ex" "\<forall>j<l. drawnCell rnd (c + 2 * j) n \<in> set ex"
    unfolding firstFree_def by blast
  from k(2) l(3) have "\<not> k < l" by blast
  moreover from l(2) k(3) have "\<not> l < k" by blast
  ultimately have "k = l" by simp
  with k(1) l(1) show ?thesis by simp
qed

lemma firstFree_free: "firstFree rnd c n ex (p, c') \<Longrightarrow> p \<notin> set ex"
  unfolding firstFree_def by auto

lemma drawnCell_inGrid: "0 < n \<Longrightarrow> inGrid n (drawnCell rnd c n)"
  by (simp add: inGrid_def drawnCell_def randomBelow_def)

lemma firstFree_inGrid: "0 < n \<Longrightarrow> firstFree rnd c n ex (p, c') \<Longrightarrow> inGrid n p"
  unfolding firstFree_def by (auto simp: drawnCell_inGrid)

lemma firstFree_exists:
  assumes "drawnCell rnd (c + 2 * k) n \<notin> set ex"
  shows "\<exists>y. firstFree rnd c n ex y"
proof -
  define l where "l = (LEAST i. drawnCell rnd (c + 2 * i) n \<notin> set ex)"
  from assms have "drawnCell rnd (c + 2 * l) n \<notin> set ex"
    unfolding l_def by (rule LeastI)
  moreover have "drawnCell rnd (c + 2 * j) n \<in> set ex" if "j < l" for j
    using that not_less_Least unfolding l_def by blast
  ultimately show ?thesis
    unfolding firstFree_def by blast
qed

lemma generateRandomPosition_step:
  "generateRandomPosition rnd c ex =
     (if drawnCell rnd c GRID_SIZE \<in> set ex then generateRandomPosition rnd (c + 2) ex
      else Some (drawnCell rnd c GRID_SIZE, c + 2))"
  by (subst generateRandomPosition.simps) (simp add: Let_def occupied_iff drawnCell_def)

lemma generateRandomPosition_sound:
  assumes "generateRandomPosition rnd c ex = Some y"
  shows "firstFree rnd c GRID_SIZE ex y"
proof (rule generateRandomPosition.raw_induct
         [where P = "\<lambda>rnd c ex y. firstFree rnd c GRID_SIZE ex y", OF _ assms])
  fix grp :: "(nat \<Rightarrow> nat) \<Rightarrow> nat \<Rightarrow> Position list \<Rightarrow> (Position \<times> nat) option"
    and rnd c ex y
  assume IH: "\<And>rnd c ex y. grp rnd c ex = Some y \<Longrightarrow> firstFree rnd c GRID_SIZE ex y"
    and body: "(let position = \<lparr>posX = randomBelow rnd c GRID_SIZE,
                                 posY = randomBelow rnd (c + 1) GRID_SIZE\<rparr>
                in if list_ex (\<lambda>p. posX p = posX position \<and> posY p = posY position) ex
                   then grp rnd (c + 2) ex else Some (position, c + 2)) = Some y"
  show "firstFree rnd c GRID_SIZE ex y"
  proof (cases "drawnCell rnd c GRID_SIZE \<in> set ex")
    case True
    with body have "grp rnd (c + 2) ex = Some y"
      by (simp add: Let_def occupied_iff drawnCell_def)
    then have "firstFree rnd (c + 2) GRID_SIZE ex y" by (rule IH)
    with True show ?thesis by (rule firstFree_later)
  next
    case False
    with body have y: "y = (drawnCell rnd c GRID_SIZE, c + 2)"
      by (simp add: Let_def occupied_iff drawnCell_def)
    from False show ?thesis unfolding y by (rule firstFree_here)
  qed
qed

lemma generateRandomPosition_returns:
  assumes "drawnCell rnd (c + 2 * k) GRID_SIZE \<notin> set ex"
  shows "\<exists>y. generateRandomPosition rnd c ex = Some y"
  using assms
proof (induction k arbitrary: c)
  case 0
  then show ?case by (subst generateRandomPosition_step) simp
next
  case (Suc k)
  from Suc.prems have "drawnCell rnd (c + 2 + 2 * k) GRID_SIZE \<notin> set ex"
    by (simp add: add.assoc)
  from Suc.IH [OF this] show ?case
    by (subst generateRandomPosition_step) simp
qed

lemma generateRandomPosition_diverges:
  assumes "\<forall>k. drawnCell rnd (c + 2 * k) GRID_SIZE \<in> set ex"
  shows "generateRandomPosition rnd c ex = None"
proof (cases "generateRandomPosition rnd c ex")
  case None
  then show ?thesis .
next
  case (Some y)
  from generateRandomPosition_sound [OF this] assms show ?thesis
    unfolding firstFree_def by blast
qed

lemma generateRandomPosition_eq:
  assumes "firstFree rnd c GRID_SIZE ex y"
  shows "generateRandomPosition rnd c ex = Some y"
proof -
  from assms obtain k where "drawnCell rnd (c + 2 * k) GRID_SIZE \<notin> set ex"
    unfolding firstFree_def by blast
  then obtain z where z: "generateRandomPosition rnd c ex = Some z"
    using generateRandomPosition_returns by blast
  then have "firstFree rnd c GRID_SIZE ex z"
    by (rule generateRandomPosition_sound)
  with assms have "z = y" by (rule firstFree_unique [rotated])
  with z show ?thesis by simp
qed

lemma generateRandomPosition_None_iff:
  "(generateRandomPosition rnd c ex = None)
     = (\<forall>k. drawnCell rnd (c + 2 * k) GRID_SIZE \<in> set ex)"
proof
  assume n: "generateRandomPosition rnd c ex = None"
  show "\<forall>k. drawnCell rnd (c + 2 * k) GRID_SIZE \<in> set ex"
  proof (intro allI, rule ccontr)
    fix k assume "drawnCell rnd (c + 2 * k) GRID_SIZE \<notin> set ex"
    from generateRandomPosition_returns [OF this] n show False by simp
  qed
next
  assume "\<forall>k. drawnCell rnd (c + 2 * k) GRID_SIZE \<in> set ex"
  then show "generateRandomPosition rnd c ex = None"
    by (rule generateRandomPosition_diverges)
qed

lemma generateRandomFood_step:
  "generateRandomFood rnd c g ex =
     (if drawnCell rnd c g \<in> set ex then generateRandomFood rnd (c + 2) g ex
      else Some (drawnCell rnd c g, c + 2))"
  by (subst generateRandomFood.simps) (simp add: Let_def occupied_iff drawnCell_def)

lemma generateRandomFood_sound:
  assumes "generateRandomFood rnd c g ex = Some y"
  shows "firstFree rnd c g ex y"
proof (rule generateRandomFood.raw_induct
         [where P = "\<lambda>rnd c g ex y. firstFree rnd c g ex y", OF _ assms])
  fix grf :: "(nat \<Rightarrow> nat) \<Rightarrow> nat \<Rightarrow> int \<Rightarrow> Position list \<Rightarrow> (Position \<times> nat) option"
    and rnd c g ex y
  assume IH: "\<And>rnd c g ex y. grf rnd c g ex = Some y \<Longrightarrow> firstFree rnd c g ex y"
    and body: "(let food' = \<lparr>posX = randomBelow rnd c g, posY = randomBelow rnd (c + 1) g\<rparr>
                in if list_ex (\<lambda>segment. posX segment = posX food' \<and> posY segment = posY food') ex
                   then grf rnd (c + 2) g ex else Some (food', c + 2)) = Some y"
  show "firstFree rnd c g ex y"
  proof (cases "drawnCell rnd c g \<in> set ex")
    case True
    with body have "grf rnd (c + 2) g ex = Some y"
      by (simp add: Let_def occupied_iff drawnCell_def)
    then have "firstFree rnd (c + 2) g ex y" by (rule IH)
    with True show ?thesis by (rule firstFree_later)
  next
    case False
    with body have y: "y = (drawnCell rnd c g, c + 2)"
      by (simp add: Let_def occupied_iff drawnCell_def)
    from False show ?thesis unfolding y by (rule firstFree_here)
  qed
qed

lemma generateRandomFood_returns:
  assumes "drawnCell rnd (c + 2 * k) g \<notin> set ex"
  shows "\<exists>y. generateRandomFood rnd c g ex = Some y"
  using assms
proof (induction k arbitrary: c)
  case 0
  then show ?case by (subst generateRandomFood_step) simp
next
  case (Suc k)
  from Suc.prems have "drawnCell rnd (c + 2 + 2 * k) g \<notin> set ex"
    by (simp add: add.assoc)
  from Suc.IH [OF this] show ?case
    by (subst generateRandomFood_step) simp
qed

lemma generateRandomFood_diverges:
  assumes "\<forall>k. drawnCell rnd (c + 2 * k) g \<in> set ex"
  shows "generateRandomFood rnd c g ex = None"
proof (cases "generateRandomFood rnd c g ex")
  case None
  then show ?thesis .
next
  case (Some y)
  from generateRandomFood_sound [OF this] assms show ?thesis
    unfolding firstFree_def by blast
qed

lemma generateRandomFood_eq:
  assumes "firstFree rnd c g ex y"
  shows "generateRandomFood rnd c g ex = Some y"
proof -
  from assms obtain k where "drawnCell rnd (c + 2 * k) g \<notin> set ex"
    unfolding firstFree_def by blast
  then obtain z where z: "generateRandomFood rnd c g ex = Some z"
    using generateRandomFood_returns by blast
  then have "firstFree rnd c g ex z"
    by (rule generateRandomFood_sound)
  with assms have "z = y" by (rule firstFree_unique [rotated])
  with z show ?thesis by simp
qed

lemma generateRandomFood_None_iff:
  "(generateRandomFood rnd c g ex = None) = (\<forall>k. drawnCell rnd (c + 2 * k) g \<in> set ex)"
proof
  assume n: "generateRandomFood rnd c g ex = None"
  show "\<forall>k. drawnCell rnd (c + 2 * k) g \<in> set ex"
  proof (intro allI, rule ccontr)
    fix k assume "drawnCell rnd (c + 2 * k) g \<notin> set ex"
    from generateRandomFood_returns [OF this] n show False by simp
  qed
next
  assume "\<forall>k. drawnCell rnd (c + 2 * k) g \<in> set ex"
  then show "generateRandomFood rnd c g ex = None"
    by (rule generateRandomFood_diverges)
qed

lemma boardPath_covers:
  assumes "inGrid 20 p"
  shows "p \<in> set boardPath"
proof -
  define i where "i = nat (posX p)"
  define j where "j = (if even i then nat (posY p) else nat (19 - posY p))"
  from assms have i: "i < 20" and j: "j < 20"
    by (auto simp: inGrid_def i_def j_def)
  from assms have "p = \<lparr>posX = int i, posY = (if even i then int j else 19 - int j)\<rparr>"
    by (cases p) (auto simp: inGrid_def i_def j_def)
  with j have "p \<in> set (boardColumn i)"
    unfolding boardColumn_def by (simp add: image_iff)
  with i show ?thesis
    unfolding boardPath_def by auto
qed

lemma boardColumn_0:
  "boardColumn 0 = \<lparr>posX = 0, posY = 0\<rparr> # \<lparr>posX = 0, posY = 1\<rparr>
     # map (\<lambda>j. \<lparr>posX = 0, posY = int j\<rparr>) [2..<20]"
proof -
  have "[0..<20] = 0 # 1 # [2..<20]"
    by (simp add: upt_conv_Cons del: upt_rec_numeral)
  then show ?thesis
    by (simp add: boardColumn_def del: upt_rec_numeral)
qed

lemma boardPath_Cons:
  "boardPath = \<lparr>posX = 0, posY = 0\<rparr> # \<lparr>posX = 0, posY = 1\<rparr>
     # (map (\<lambda>j. \<lparr>posX = 0, posY = int j\<rparr>) [2..<20] @ concat (map boardColumn [1..<20]))"
proof -
  have "[0..<20] = 0 # [1..<20]"
    by (simp add: upt_conv_Cons del: upt_rec_numeral)
  then show ?thesis
    unfolding boardPath_def by (simp add: boardColumn_0 del: upt_rec_numeral)
qed

lemma boardPath_not_Nil: "boardPath \<noteq> []"
  by (simp add: boardPath_Cons)

lemma boardPath_full: "drawnCell rnd c GRID_SIZE \<in> set boardPath"
  using drawnCell_inGrid [of GRID_SIZE rnd c]
  by (simp add: GRID_SIZE_def boardPath_covers)

lemma generateRandomPosition_crowded:
  "set boardPath \<subseteq> set ex \<Longrightarrow> generateRandomPosition rnd c ex = None"
  using boardPath_full by (intro generateRandomPosition_diverges) blast

lemma generateRandomFood_boardPath: "generateRandomFood rnd c 20 boardPath = None"
  using drawnCell_inGrid [of 20 rnd]
  by (intro generateRandomFood_diverges) (simp add: boardPath_covers)

text \<open>
  C8, as stated, fails: \<open>boardPath\<close> holds every cell of the board, and on it
  \<open>generateRandomPosition\<close> never returns.
\<close>

theorem food_loop_counterexample:
  "Collect (inGrid GRID_SIZE) \<subseteq> set boardPath
   \<and> generateRandomPosition (\<lambda>i. i) 0 boardPath = None"
  by (auto simp: generateRandomPosition_crowded GRID_SIZE_def boardPath_covers)

text \<open>
  C8, amended.  \<open>generateRandomPosition\<close> (and \<open>generateRandomFood\<close>, for a positive grid
  size) draws cells until one is outside the snake, with no bound on the number of draws
  and no fallback scan.  It returns exactly when some draw falls outside the snake, and
  then returns the first such cell, with the cursor after that draw; it does not return
  when no draw ever does, in particular when the snake holds every cell of the grid.  For
  every \<open>k\<close> there is a random source under which the loop on the initial snake rejects
  \<open>k\<close> cells before it returns.
\<close>

theorem food_loop_rule:
  "(generateRandomPosition rnd c ex = None)
     = (\<forall>k. drawnCell rnd (c + 2 * k) GRID_SIZE \<in> set ex)
   \<and> (\<forall>y. (generateRandomPosition rnd c ex = Some y) = firstFree rnd c GRID_SIZE ex y)
   \<and> ((\<forall>p. inGrid GRID_SIZE p \<longrightarrow> p \<in> set ex) \<longrightarrow> generateRandomPosition rnd c ex = None)
   \<and> (\<forall>k. generateRandomPosition (\<lambda>i. if i < 2 * k then 10 else 0) 0 initialSnake
            = Some (\<lparr>posX = 0, posY = 0\<rparr>, 2 * k + 2))
   \<and> (0 < g \<longrightarrow>
        (generateRandomFood rnd c g ex = None) = (\<forall>k. drawnCell rnd (c + 2 * k) g \<in> set ex)
        \<and> (\<forall>y. (generateRandomFood rnd c g ex = Some y) = firstFree rnd c g ex y)
        \<and> ((\<forall>p. inGrid g p \<longrightarrow> p \<in> set ex) \<longrightarrow> generateRandomFood rnd c g ex = None))"
proof (intro conjI allI impI)
  show "(generateRandomPosition rnd c ex = None)
          = (\<forall>k. drawnCell rnd (c + 2 * k) GRID_SIZE \<in> set ex)"
    by (rule generateRandomPosition_None_iff)
  show "(generateRandomPosition rnd c ex = Some y) = firstFree rnd c GRID_SIZE ex y" for y
    using generateRandomPosition_sound generateRandomPosition_eq by blast
  show "generateRandomPosition rnd c ex = None" if "\<forall>p. inGrid GRID_SIZE p \<longrightarrow> p \<in> set ex"
    using that drawnCell_inGrid [of GRID_SIZE rnd]
    by (intro generateRandomPosition_diverges) (simp add: GRID_SIZE_def)
  show "generateRandomPosition (\<lambda>i. if i < 2 * k then 10 else 0) 0 initialSnake
          = Some (\<lparr>posX = 0, posY = 0\<rparr>, 2 * k + 2)" for k
  proof (rule generateRandomPosition_eq)
    let ?rnd = "\<lambda>i::nat. if i < 2 * k then 10 else (0::nat)"
    have late: "drawnCell ?rnd (0 + 2 * k) GRID_SIZE = \<lparr>posX = 0, posY = 0\<rparr>"
      by (simp add: drawnCell_def randomBelow_def GRID_SIZE_def)
    have early: "drawnCell ?rnd (0 + 2 * j) GRID_SIZE = \<lparr>posX = 10, posY = 10\<rparr>" if "j < k" for j
      using that by (simp add: drawnCell_def randomBelow_def GRID_SIZE_def)
    show "firstFree ?rnd 0 GRID_SIZE initialSnake (\<lparr>posX = 0, posY = 0\<rparr>, 2 * k + 2)"
      unfolding firstFree_def
    proof (intro exI [of _ k] conjI allI impI)
      show "(\<lparr>posX = 0, posY = 0\<rparr>, 2 * k + 2)
              = (drawnCell ?rnd (0 + 2 * k) GRID_SIZE, 0 + 2 * k + 2)"
        unfolding late by simp
      show "drawnCell ?rnd (0 + 2 * k) GRID_SIZE \<notin> set initialSnake"
        unfolding late by (simp add: initialSnake_def GRID_SIZE_def)
      show "drawnCell ?rnd (0 + 2 * j) GRID_SIZE \<in> set initialSnake" if "j < k" for j
        unfolding early [OF that] by (simp add: initialSnake_def GRID_SIZE_def)
    qed
  qed
next
  assume g: "0 < g"
  show "(generateRandomFood rnd c g ex = None) = (\<forall>k. drawnCell rnd (c + 2 * k) g \<in> set ex)"
    by (rule generateRandomFood_None_iff)
  show "(generateRandomFood rnd c g ex = Some y) = firstFree rnd c g ex y" for y
    using generateRandomFood_sound generateRandomFood_eq by blast
  show "generateRandomFood rnd c g ex = None" if "\<forall>p. inGrid g p \<longrightarrow> p \<in> set ex"
    using that drawnCell_inGrid [OF g, of rnd]
    by (intro generateRandomFood_diverges) simp
qed

theorem food_loop_rule_witness:
  "generateRandomPosition (\<lambda>i. i) 0 initialSnake = Some (\<lparr>posX = 0, posY = 1\<rparr>, 2)
   \<and> generateRandomPosition (\<lambda>i. if i < 2 * 3 then 10 else 0) 0 initialSnake
       = Some (\<lparr>posX = 0, posY = 0\<rparr>, 8)
   \<and> generateRandomFood (\<lambda>i. i) 0 20 initialSnake = Some (\<lparr>posX = 0, posY = 1\<rparr>, 2)"
proof -
  have cell: "drawnCell (\<lambda>i. i) 0 20 = \<lparr>posX = 0, posY = 1\<rparr>"
    by (simp add: drawnCell_def randomBelow_def)
  then have "drawnCell (\<lambda>i. i) 0 20 \<notin> set initialSnake"
    by (simp add: initialSnake_def GRID_SIZE_def)
  from firstFree_here [OF this] cell
  have first: "firstFree (\<lambda>i. i) 0 20 initialSnake (\<lparr>posX = 0, posY = 1\<rparr>, 2)"
    by (simp add: numeral_2_eq_2)
  from food_loop_rule [of "\<lambda>i. i" 0 initialSnake 20] first
  have "generateRandomPosition (\<lambda>i. i) 0 initialSnake = Some (\<lparr>posX = 0, posY = 1\<rparr>, 2)"
    and "generateRandomFood (\<lambda>i. i) 0 20 initialSnake = Some (\<lparr>posX = 0, posY = 1\<rparr>, 2)"
    by (simp_all add: GRID_SIZE_def)
  moreover from food_loop_rule [of "\<lambda>i. i" 0 initialSnake 20]
  have "generateRandomPosition (\<lambda>i. if i < 2 * 3 then 10 else 0) 0 initialSnake
          = Some (\<lparr>posX = 0, posY = 0\<rparr>, 2 * 3 + 2)"
    by blast
  ultimately show ?thesis by simp
qed

section \<open>Moving the snake\<close>

lemma proposedHead_PassThrough:
  "proposedHead h d PassThrough = Some (wrapHead (stepHead h d))"
  by (simp add: proposedHead_def)

lemma proposedHead_Walls:
  "proposedHead h d Walls = (if outOfBounds (stepHead h d) then None else Some (stepHead h d))"
  by (simp add: proposedHead_def)

lemma proposedHead_inGrid:
  assumes "inGrid GRID_SIZE h" and "proposedHead h d m = Some nh"
  shows "inGrid GRID_SIZE nh" and "nh = wrapHead (stepHead h d)"
proof -
  show g: "inGrid GRID_SIZE nh"
  proof (cases m)
    case Walls
    with assms(2) have "\<not> outOfBounds (stepHead h d)" and "nh = stepHead h d"
      by (simp_all add: proposedHead_Walls split: if_splits)
    then show ?thesis
      by (auto simp: outOfBounds_def inGrid_def)
  next
    case PassThrough
    with assms(2) have "nh = wrapHead (stepHead h d)"
      by (simp add: proposedHead_PassThrough)
    with assms(1) show ?thesis
      by (simp add: wrapHead_inGrid)
  qed
  show "nh = wrapHead (stepHead h d)"
  proof (cases m)
    case Walls
    with assms(2) have "nh = stepHead h d"
      by (simp add: proposedHead_Walls split: if_splits)
    with g wrapHead_id [of nh] show ?thesis by simp
  next
    case PassThrough
    with assms(2) show ?thesis
      by (simp add: proposedHead_PassThrough)
  qed
qed

lemma moveSnake_Cons:
  "moveSnake (h # rest) d m =
     (case proposedHead h d m of
        None \<Rightarrow> Inr (h # rest, True)
      | Some nh \<Rightarrow>
          if nh \<in> set (butlast (drop 2 (h # rest))) then Inr (h # rest, True)
          else Inr (nh # butlast (h # rest), False))"
  by (simp add: moveSnake_def hitsBody_iff jsSlice_init split: option.splits)

lemma collisionReason_Cons:
  "collisionReason (h # rest) d m =
     (case proposedHead h d m of
        None \<Rightarrow> Some WALL
      | Some nh \<Rightarrow> if nh \<in> set (butlast (drop 2 (h # rest))) then Some SELF else None)"
  by (simp add: collisionReason_def hitsBody_iff split: option.splits)

lemma moveSnake_collisionReason:
  "moveSnake (h # rest) d m = Inr (ns, c) \<Longrightarrow> c = (collisionReason (h # rest) d m \<noteq> None)"
  by (auto simp: moveSnake_Cons collisionReason_Cons split: option.splits if_splits)

lemma compared_segments:
  "(x \<in> set (butlast (drop 2 xs))) = (\<exists>i. 2 \<le> i \<and> i + 1 < length xs \<and> xs ! i = x)"
proof
  assume "x \<in> set (butlast (drop 2 xs))"
  then obtain j where j: "j < length (butlast (drop 2 xs))" "butlast (drop 2 xs) ! j = x"
    by (auto simp: in_set_conv_nth)
  from j(1) have "j + 3 < length xs" by simp
  moreover from j have "xs ! (2 + j) = x"
    by (simp add: nth_butlast)
  ultimately show "\<exists>i. 2 \<le> i \<and> i + 1 < length xs \<and> xs ! i = x"
    by (intro exI [of _ "2 + j"]) simp
next
  assume "\<exists>i. 2 \<le> i \<and> i + 1 < length xs \<and> xs ! i = x"
  then obtain i where i: "2 \<le> i" "i + 1 < length xs" "xs ! i = x" by blast
  then have "i - 2 < length (butlast (drop 2 xs))" by simp
  moreover from i have "2 + (i - 2) = i" by simp
  with i have "butlast (drop 2 xs) ! (i - 2) = x"
    by (simp add: nth_butlast del: add_2_eq_Suc)
  ultimately show "x \<in> set (butlast (drop 2 xs))"
    by (auto simp: in_set_conv_nth)
qed

text \<open>
  C6.  In pass-through mode a move from a head on the board never reports \<open>WALL\<close>: the
  proposed head is the stepped head with both coordinates reduced modulo 20, so it lies on
  the board, and \<open>moveSnake\<close> puts it in front of the snake unless it hits the body.  From
  the last column a step to the right leads to column 0, from column 0 a step to the left
  to column 19, and likewise for the rows.  In walls mode a step that takes a coordinate of
  the head outside \<open>[0, 20)\<close> reports a collision with reason \<open>WALL\<close> and returns the
  snake as it was.
\<close>

theorem wall_rule:
  "collisionReason (h # rest) d PassThrough \<noteq> Some WALL
   \<and> (inGrid GRID_SIZE h \<longrightarrow>
      (\<exists>nh. proposedHead h d PassThrough = Some nh \<and> inGrid GRID_SIZE nh
             \<and> nh = \<lparr>posX = posX (stepHead h d) mod GRID_SIZE,
                      posY = posY (stepHead h d) mod GRID_SIZE\<rparr>
             \<and> moveSnake (h # rest) d PassThrough =
                 (if hitsBody (h # rest) nh then Inr (h # rest, True)
                  else Inr (nh # butlast (h # rest), False)))
      \<and> (posX h = GRID_SIZE - 1 \<longrightarrow>
           proposedHead h RIGHT PassThrough = Some \<lparr>posX = 0, posY = posY h\<rparr>)
      \<and> (posX h = 0 \<longrightarrow>
           proposedHead h LEFT PassThrough = Some \<lparr>posX = GRID_SIZE - 1, posY = posY h\<rparr>)
      \<and> (posY h = GRID_SIZE - 1 \<longrightarrow>
           proposedHead h DOWN PassThrough = Some \<lparr>posX = posX h, posY = 0\<rparr>)
      \<and> (posY h = 0 \<longrightarrow>
           proposedHead h UP PassThrough = Some \<lparr>posX = posX h, posY = GRID_SIZE - 1\<rparr>))
   \<and> (outOfBounds (stepHead h d) \<longrightarrow>
        moveSnake (h # rest) d Walls = Inr (h # rest, True)
        \<and> collisionReason (h # rest) d Walls = Some WALL)"
proof (intro conjI impI)
  show "collisionReason (h # rest) d PassThrough \<noteq> Some WALL"
    by (simp add: collisionReason_Cons proposedHead_PassThrough)
next
  assume g: "inGrid GRID_SIZE h"
  show "\<exists>nh. proposedHead h d PassThrough = Some nh \<and> inGrid GRID_SIZE nh
          \<and> nh = \<lparr>posX = posX (stepHead h d) mod GRID_SIZE,
                   posY = posY (stepHead h d) mod GRID_SIZE\<rparr>
          \<and> moveSnake (h # rest) d PassThrough =
              (if hitsBody (h # rest) nh then Inr (h # rest, True)
               else Inr (nh # butlast (h # rest), False))"
    using wrapHead_inGrid [OF g, of d] wrapHead_stepHead [OF g, of d]
    by (simp add: proposedHead_PassThrough moveSnake_Cons hitsBody_iff)
  show "proposedHead h RIGHT PassThrough = Some \<lparr>posX = 0, posY = posY h\<rparr>"
    if "posX h = GRID_SIZE - 1"
    using that g wrapHead_stepHead [OF g, of RIGHT]
    by (simp add: proposedHead_PassThrough inGrid_def GRID_SIZE_def)
  show "proposedHead h LEFT PassThrough = Some \<lparr>posX = GRID_SIZE - 1, posY = posY h\<rparr>"
    if "posX h = 0"
    using that g wrapHead_stepHead [OF g, of LEFT]
    by (simp add: proposedHead_PassThrough inGrid_def GRID_SIZE_def)
  show "proposedHead h DOWN PassThrough = Some \<lparr>posX = posX h, posY = 0\<rparr>"
    if "posY h = GRID_SIZE - 1"
    using that g wrapHead_stepHead [OF g, of DOWN]
    by (simp add: proposedHead_PassThrough inGrid_def GRID_SIZE_def)
  show "proposedHead h UP PassThrough = Some \<lparr>posX = posX h, posY = GRID_SIZE - 1\<rparr>"
    if "posY h = 0"
    using that g wrapHead_stepHead [OF g, of UP]
    by (simp add: proposedHead_PassThrough inGrid_def GRID_SIZE_def)
next
  assume "outOfBounds (stepHead h d)"
  then show "moveSnake (h # rest) d Walls = Inr (h # rest, True)"
    and "collisionReason (h # rest) d Walls = Some WALL"
    by (simp_all add: moveSnake_Cons collisionReason_Cons proposedHead_Walls)
qed

theorem wall_rule_witness:
  "inGrid GRID_SIZE \<lparr>posX = 19, posY = 10\<rparr>
   \<and> posX \<lparr>posX = 19, posY = 10\<rparr> = GRID_SIZE - 1
   \<and> outOfBounds (stepHead \<lparr>posX = 19, posY = 10\<rparr> RIGHT)
   \<and> proposedHead \<lparr>posX = 19, posY = 10\<rparr> RIGHT PassThrough = Some \<lparr>posX = 0, posY = 10\<rparr>
   \<and> collisionReason [\<lparr>posX = 19, posY = 10\<rparr>, \<lparr>posX = 18, posY = 10\<rparr>] RIGHT PassThrough \<noteq> Some WALL
   \<and> moveSnake [\<lparr>posX = 19, posY = 10\<rparr>, \<lparr>posX = 18, posY = 10\<rparr>] RIGHT Walls
       = Inr ([\<lparr>posX = 19, posY = 10\<rparr>, \<lparr>posX = 18, posY = 10\<rparr>], True)
   \<and> collisionReason [\<lparr>posX = 19, posY = 10\<rparr>, \<lparr>posX = 18, posY = 10\<rparr>] RIGHT Walls = Some WALL"
proof -
  have g: "inGrid GRID_SIZE \<lparr>posX = 19, posY = 10\<rparr>"
    and e: "posX \<lparr>posX = 19, posY = 10\<rparr> = GRID_SIZE - 1"
    and out: "outOfBounds (stepHead \<lparr>posX = 19, posY = 10\<rparr> RIGHT)"
    by (simp_all add: inGrid_def GRID_SIZE_def outOfBounds_def)
  from wall_rule [of "\<lparr>posX = 19, posY = 10\<rparr>" "[\<lparr>posX = 18, posY = 10\<rparr>]" RIGHT] g e out
  show ?thesis by simp
qed

text \<open>
  C2, as stated, fails: the snake \<open>(0,0), (1,0), (1,1), (0,1)\<close> after \<open>growSnake\<close> has its
  tail cell \<open>(0,1)\<close> twice; a step down proposes that cell, and the move reports \<open>SELF\<close>,
  because the segment before the tail is compared and lies on the same cell.
\<close>

theorem tail_cell_counterexample:
  "proposedHead \<lparr>posX = 0, posY = 0\<rparr> DOWN Walls
     = Some (last (growSnake [\<lparr>posX = 0, posY = 0\<rparr>, \<lparr>posX = 1, posY = 0\<rparr>,
                              \<lparr>posX = 1, posY = 1\<rparr>, \<lparr>posX = 0, posY = 1\<rparr>]))
   \<and> moveSnake (growSnake [\<lparr>posX = 0, posY = 0\<rparr>, \<lparr>posX = 1, posY = 0\<rparr>,
                           \<lparr>posX = 1, posY = 1\<rparr>, \<lparr>posX = 0, posY = 1\<rparr>]) DOWN Walls
       = Inr (growSnake [\<lparr>posX = 0, posY = 0\<rparr>, \<lparr>posX = 1, posY = 0\<rparr>,
                         \<lparr>posX = 1, posY = 1\<rparr>, \<lparr>posX = 0, posY = 1\<rparr>], True)
   \<and> collisionReason (growSnake [\<lparr>posX = 0, posY = 0\<rparr>, \<lparr>posX = 1, posY = 0\<rparr>,
                                 \<lparr>posX = 1, posY = 1\<rparr>, \<lparr>posX = 0, posY = 1\<rparr>]) DOWN Walls
       = Some SELF"
  by (simp add: growSnake_def moveSnake_Cons collisionReason_Cons proposedHead_Walls
      outOfBounds_def GRID_SIZE_def)

text \<open>
  C2, amended.  For every non-empty snake and every proposed head (wrapped in pass-through
  mode, on the board in walls mode), the move reports \<open>SELF\<close> exactly when the proposed
  head equals a segment at an index from 2 to \<open>length - 2\<close>: the head, the segment behind
  it and the tail are not compared.  A proposed head equal to the tail's cell is accepted
  provided no compared segment lies on that cell.  \<open>moveSnake\<close> takes no food, so the rule
  is the same whether or not the snake grows in that tick.
\<close>

theorem self_collision_rule:
  assumes "proposedHead h d m = Some nh"
  shows "(collisionReason (h # rest) d m = Some SELF)
           = (\<exists>i. 2 \<le> i \<and> i + 1 < length (h # rest) \<and> (h # rest) ! i = nh)
         \<and> (collisionReason (h # rest) d m = None)
           = (\<not> (\<exists>i. 2 \<le> i \<and> i + 1 < length (h # rest) \<and> (h # rest) ! i = nh))
         \<and> moveSnake (h # rest) d m
           = (if \<exists>i. 2 \<le> i \<and> i + 1 < length (h # rest) \<and> (h # rest) ! i = nh
              then Inr (h # rest, True) else Inr (nh # butlast (h # rest), False))
         \<and> (nh = last (h # rest)
              \<and> (\<forall>i. 2 \<le> i \<and> i + 1 < length (h # rest) \<longrightarrow> (h # rest) ! i \<noteq> nh)
            \<longrightarrow> moveSnake (h # rest) d m = Inr (nh # butlast (h # rest), False)
                \<and> collisionReason (h # rest) d m = None)"
proof -
  let ?hit = "\<exists>i. 2 \<le> i \<and> i + 1 < length (h # rest) \<and> (h # rest) ! i = nh"
  have hit: "?hit = (nh \<in> set (butlast (drop 2 (h # rest))))"
    by (rule compared_segments [symmetric])
  have miss: "(\<forall>i. 2 \<le> i \<and> i + 1 < length (h # rest) \<longrightarrow> (h # rest) ! i \<noteq> nh) = (\<not> ?hit)"
    by blast
  show ?thesis
    unfolding miss hit using assms
    by (auto simp: moveSnake_Cons collisionReason_Cons)
qed

theorem self_collision_rule_witness:
  "proposedHead \<lparr>posX = 10, posY = 10\<rparr> UP Walls = Some \<lparr>posX = 10, posY = 9\<rparr>
   \<and> \<lparr>posX = 10, posY = 9\<rparr>
       = last [\<lparr>posX = 10, posY = 10\<rparr>, \<lparr>posX = 9, posY = 10\<rparr>, \<lparr>posX = 8, posY = 10\<rparr>,
               \<lparr>posX = 8, posY = 9\<rparr>, \<lparr>posX = 9, posY = 9\<rparr>, \<lparr>posX = 10, posY = 9\<rparr>]
   \<and> moveSnake [\<lparr>posX = 10, posY = 10\<rparr>, \<lparr>posX = 9, posY = 10\<rparr>, \<lparr>posX = 8, posY = 10\<rparr>,
                  \<lparr>posX = 8, posY = 9\<rparr>, \<lparr>posX = 9, posY = 9\<rparr>, \<lparr>posX = 10, posY = 9\<rparr>] UP Walls
       = Inr ([\<lparr>posX = 10, posY = 9\<rparr>, \<lparr>posX = 10, posY = 10\<rparr>, \<lparr>posX = 9, posY = 10\<rparr>,
               \<lparr>posX = 8, posY = 10\<rparr>, \<lparr>posX = 8, posY = 9\<rparr>, \<lparr>posX = 9, posY = 9\<rparr>], False)
   \<and> collisionReason [\<lparr>posX = 10, posY = 10\<rparr>, \<lparr>posX = 9, posY = 10\<rparr>, \<lparr>posX = 8, posY = 10\<rparr>,
                  \<lparr>posX = 8, posY = 9\<rparr>, \<lparr>posX = 9, posY = 9\<rparr>, \<lparr>posX = 10, posY = 9\<rparr>] UP Walls
       = None"
proof -
  let ?h = "\<lparr>posX = 10, posY = 10\<rparr>"
  let ?rest = "[\<lparr>posX = 9, posY = 10\<rparr>, \<lparr>posX = 8, posY = 10\<rparr>,
               \<lparr>posX = 8, posY = 9\<rparr>, \<lparr>posX = 9, posY = 9\<rparr>, \<lparr>posX = 10, posY = 9\<rparr>]"
  let ?nh = "\<lparr>posX = 10, posY = 9\<rparr>"
  have p: "proposedHead ?h UP Walls = Some ?nh"
    by (simp add: proposedHead_Walls outOfBounds_def GRID_SIZE_def)
  have "?nh \<notin> set (butlast (drop 2 (?h # ?rest)))"
    by simp
  then have free: "\<forall>i. 2 \<le> i \<and> i + 1 < length (?h # ?rest) \<longrightarrow> (?h # ?rest) ! i \<noteq> ?nh"
    unfolding compared_segments by blast
  have l: "?nh = last (?h # ?rest)"
    by simp
  from self_collision_rule [OF p, of ?rest] free l p show ?thesis
    by simp
qed

text \<open>
  C3, as stated, fails: for the closed loop \<open>(10,10), (11,10), (11,11), (10,11)\<close> a step to
  the right proposes the cell of the second segment, and the move is accepted.
\<close>

theorem second_segment_counterexample:
  "4 \<le> length [\<lparr>posX = 10, posY = 10\<rparr>, \<lparr>posX = 11, posY = 10\<rparr>,
                 \<lparr>posX = 11, posY = 11\<rparr>, \<lparr>posX = 10, posY = 11\<rparr>]
   \<and> proposedHead \<lparr>posX = 10, posY = 10\<rparr> RIGHT Walls
       = Some ([\<lparr>posX = 10, posY = 10\<rparr>, \<lparr>posX = 11, posY = 10\<rparr>,
                \<lparr>posX = 11, posY = 11\<rparr>, \<lparr>posX = 10, posY = 11\<rparr>] ! 1)
   \<and> moveSnake [\<lparr>posX = 10, posY = 10\<rparr>, \<lparr>posX = 11, posY = 10\<rparr>,
                  \<lparr>posX = 11, posY = 11\<rparr>, \<lparr>posX = 10, posY = 11\<rparr>] RIGHT Walls
       = Inr ([\<lparr>posX = 11, posY = 10\<rparr>, \<lparr>posX = 10, posY = 10\<rparr>,
               \<lparr>posX = 11, posY = 10\<rparr>, \<lparr>posX = 11, posY = 11\<rparr>], False)
   \<and> collisionReason [\<lparr>posX = 10, posY = 10\<rparr>, \<lparr>posX = 11, posY = 10\<rparr>,
                        \<lparr>posX = 11, posY = 11\<rparr>, \<lparr>posX = 10, posY = 11\<rparr>] RIGHT Walls
       = None"
  by (simp add: moveSnake_Cons collisionReason_Cons proposedHead_Walls outOfBounds_def GRID_SIZE_def)

text \<open>
  C3, amended.  For every snake of length at least 4, closed loop or not: a move whose
  proposed head lands on the second segment is accepted when no compared segment (index 2
  to \<open>length - 2\<close>) shares that cell, in particular when the cells of the snake are
  pairwise distinct; a move whose proposed head lands on a segment at an index from 2 to
  \<open>length - 2\<close> reports a collision with reason \<open>SELF\<close>.
\<close>

theorem second_segment_rule:
  assumes "proposedHead h d m = Some nh" and "4 \<le> length (h # rest)"
  shows "(nh = (h # rest) ! 1 \<and> nh \<notin> set (butlast (drop 2 (h # rest)))
            \<longrightarrow> moveSnake (h # rest) d m = Inr (nh # butlast (h # rest), False)
                \<and> collisionReason (h # rest) d m = None)
         \<and> (nh = (h # rest) ! 1 \<and> distinct (h # rest)
            \<longrightarrow> moveSnake (h # rest) d m = Inr (nh # butlast (h # rest), False)
                \<and> collisionReason (h # rest) d m = None)
         \<and> (\<forall>i. 2 \<le> i \<and> i + 1 < length (h # rest) \<and> nh = (h # rest) ! i
            \<longrightarrow> moveSnake (h # rest) d m = Inr (h # rest, True)
                \<and> collisionReason (h # rest) d m = Some SELF)"
proof (intro conjI impI allI)
  assume "nh = (h # rest) ! 1 \<and> nh \<notin> set (butlast (drop 2 (h # rest)))"
  then have "nh \<notin> set (butlast (drop 2 (h # rest)))" by blast
  with assms(1) show "moveSnake (h # rest) d m = Inr (nh # butlast (h # rest), False)"
    and "collisionReason (h # rest) d m = None"
    by (simp_all add: moveSnake_Cons collisionReason_Cons)
next
  assume a: "nh = (h # rest) ! 1 \<and> distinct (h # rest)"
  from assms(2) obtain n tl' where rest: "rest = n # tl'"
    by (cases rest) auto
  with a have "nh \<notin> set (butlast (drop 2 (h # rest)))"
    by (auto dest: in_set_butlastD)
  with assms(1) show "moveSnake (h # rest) d m = Inr (nh # butlast (h # rest), False)"
    and "collisionReason (h # rest) d m = None"
    by (simp_all add: moveSnake_Cons collisionReason_Cons)
next
  fix i
  assume "2 \<le> i \<and> i + 1 < length (h # rest) \<and> nh = (h # rest) ! i"
  then have "nh \<in> set (butlast (drop 2 (h # rest)))"
    unfolding compared_segments by blast
  with assms(1) show "moveSnake (h # rest) d m = Inr (h # rest, True)"
    and "collisionReason (h # rest) d m = Some SELF"
    by (simp_all add: moveSnake_Cons collisionReason_Cons)
qed

theorem second_segment_rule_witness:
  "moveSnake [\<lparr>posX = 10, posY = 10\<rparr>, \<lparr>posX = 11, posY = 10\<rparr>, \<lparr>posX = 11, posY = 11\<rparr>,
              \<lparr>posX = 10, posY = 11\<rparr>, \<lparr>posX = 9, posY = 11\<rparr>] DOWN PassThrough
     = Inr ([\<lparr>posX = 10, posY = 10\<rparr>, \<lparr>posX = 11, posY = 10\<rparr>, \<lparr>posX = 11, posY = 11\<rparr>,
             \<lparr>posX = 10, posY = 11\<rparr>, \<lparr>posX = 9, posY = 11\<rparr>], True)
   \<and> collisionReason [\<lparr>posX = 10, posY = 10\<rparr>, \<lparr>posX = 11, posY = 10\<rparr>,
                        \<lparr>posX = 11, posY = 11\<rparr>, \<lparr>posX = 10, posY = 11\<rparr>,
                        \<lparr>posX = 9, posY = 11\<rparr>] DOWN PassThrough
     = Some SELF
   \<and> moveSnake [\<lparr>posX = 10, posY = 10\<rparr>, \<lparr>posX = 11, posY = 10\<rparr>, \<lparr>posX = 11, posY = 11\<rparr>,
                  \<lparr>posX = 10, posY = 11\<rparr>, \<lparr>posX = 9, posY = 11\<rparr>] RIGHT PassThrough
     = Inr ([\<lparr>posX = 11, posY = 10\<rparr>, \<lparr>posX = 10, posY = 10\<rparr>, \<lparr>posX = 11, posY = 10\<rparr>,
             \<lparr>posX = 11, posY = 11\<rparr>, \<lparr>posX = 10, posY = 11\<rparr>], False)
   \<and> collisionReason [\<lparr>posX = 10, posY = 10\<rparr>, \<lparr>posX = 11, posY = 10\<rparr>,
                        \<lparr>posX = 11, posY = 11\<rparr>, \<lparr>posX = 10, posY = 11\<rparr>,
                        \<lparr>posX = 9, posY = 11\<rparr>] RIGHT PassThrough
     = None"
proof -
  let ?h = "\<lparr>posX = 10, posY = 10\<rparr>"
  let ?rest = "[\<lparr>posX = 11, posY = 10\<rparr>, \<lparr>posX = 11, posY = 11\<rparr>,
               \<lparr>posX = 10, posY = 11\<rparr>, \<lparr>posX = 9, posY = 11\<rparr>]"
  let ?fourth = "\<lparr>posX = 10, posY = 11\<rparr>"
  let ?second = "\<lparr>posX = 11, posY = 10\<rparr>"
  have down: "proposedHead ?h DOWN PassThrough = Some ?fourth"
    and right: "proposedHead ?h RIGHT PassThrough = Some ?second"
    by (simp_all add: proposedHead_PassThrough wrapHead_def GRID_SIZE_def jsRem_def)
  have len: "4 \<le> length (?h # ?rest)"
    by simp
  have at: "2 \<le> (3::nat) \<and> 3 + 1 < length (?h # ?rest) \<and> ?fourth = (?h # ?rest) ! 3"
    by simp
  have loop: "?second = (?h # ?rest) ! 1 \<and> distinct (?h # ?rest)"
    by simp
  from second_segment_rule [OF down len] at
  have "moveSnake (?h # ?rest) DOWN PassThrough = Inr (?h # ?rest, True)
        \<and> collisionReason (?h # ?rest) DOWN PassThrough = Some SELF"
    by blast
  moreover from second_segment_rule [OF right len] loop
  have "moveSnake (?h # ?rest) RIGHT PassThrough = Inr (?second # butlast (?h # ?rest), False)
        \<and> collisionReason (?h # ?rest) RIGHT PassThrough = None"
    by blast
  ultimately show ?thesis by simp
qed

section \<open>The session operations\<close>

lemma tick_not_playing:
  "status prev \<noteq> Playing \<Longrightarrow> tick rnd c st prev = Some (Inr (prev, c, st))"
  by (simp add: tick_def)

lemma tick_on_collision:
  assumes "status prev = Playing"
    and "moveSnake (snake prev) (nextDirection prev) (mode prev) = Inr (ns, True)"
  shows "tick rnd c st prev =
           Some (Inr (prev\<lparr>status := GameOver, highScore := max (score prev) (highScore prev)\<rparr>,
                      c,
                      if score prev > highScore prev then setItem (mode prev) (score prev) st
                      else st))"
  using assms by (simp add: tick_def Let_def)

lemma tick_on_advance:
  assumes "status prev = Playing"
    and "moveSnake (snake prev) (nextDirection prev) (mode prev) = Inr (nh # ns, False)"
    and "nh \<noteq> food prev"
  shows "tick rnd c st prev =
           Some (Inr (prev\<lparr>snake := nh # ns, direction := nextDirection prev\<rparr>, c, st))"
  using assms by (simp add: tick_def Let_def checkFoodCollision_iff)

lemma tick_on_eat:
  assumes "status prev = Playing"
    and "moveSnake (snake prev) (nextDirection prev) (mode prev) = Inr (food prev # ns, False)"
  shows "tick rnd c st prev =
           (case generateRandomPosition rnd c (growSnake (food prev # ns)) of
              None \<Rightarrow> None
            | Some (food', c') \<Rightarrow>
                Some (Inr (prev\<lparr>snake := growSnake (food prev # ns), food := food',
                                direction := nextDirection prev, score := score prev + 10,
                                highScore := max (score prev + 10) (highScore prev),
                                speed := calculateSpeed (score prev + 10)\<rparr>,
                           c',
                           if score prev + 10 > highScore prev
                           then setItem (mode prev) (max (score prev + 10) (highScore prev)) st
                           else st)))"
  using assms by (simp add: tick_def Let_def checkFoodCollision_iff)

lemma tick_Playing_cases:
  assumes play: "status s = Playing" and sn: "snake s = h # rest"
    and t: "tick rnd c st s = Some (Inr (s', c', st'))"
  shows "(snake s' = snake s \<and> direction s' = direction s
            \<and> nextDirection s' = nextDirection s \<and> status s' = GameOver)
         \<or> (\<exists>nh tl'. proposedHead h (nextDirection s) (mode s) = Some nh
               \<and> status s' = Playing
               \<and> direction s' = nextDirection s \<and> nextDirection s' = nextDirection s
               \<and> snake s' = nh # butlast (snake s) @ tl')"
proof (cases "moveSnake (snake s) (nextDirection s) (mode s)")
  case (Inl e)
  with sn show ?thesis by (simp add: moveSnake_Cons split: option.splits if_splits)
next
  case (Inr r)
  then obtain ns col where mv: "moveSnake (snake s) (nextDirection s) (mode s) = Inr (ns, col)"
    by (cases r) simp
  show ?thesis
  proof (cases col)
    case True
    with mv have "moveSnake (snake s) (nextDirection s) (mode s) = Inr (ns, True)"
      by simp
    from tick_on_collision [OF play this, of rnd c st] t show ?thesis
      by auto
  next
    case False
    with mv sn obtain nh where p: "proposedHead h (nextDirection s) (mode s) = Some nh"
      and ns: "ns = nh # butlast (snake s)"
      by (auto simp: moveSnake_Cons split: option.splits if_splits)
    show ?thesis
    proof (cases "nh = food s")
      case True
      from mv False ns True
      have "moveSnake (snake s) (nextDirection s) (mode s) = Inr (food s # butlast (snake s), False)"
        by simp
      from tick_on_eat [OF play this, of rnd c st] t True play p
      have "status s' = Playing \<and> direction s' = nextDirection s
            \<and> nextDirection s' = nextDirection s
            \<and> snake s' = growSnake (nh # butlast (snake s))"
        by (auto split: option.splits)
      with p show ?thesis
        by (auto simp: growSnake_Cons)
    next
      case miss: False
      from mv False ns
      have "moveSnake (snake s) (nextDirection s) (mode s) = Inr (nh # butlast (snake s), False)"
        by simp
      from tick_on_advance [OF play this miss, of rnd c st] t play p show ?thesis
        by auto
    qed
  qed
qed

text \<open>
  C1, as stated, fails: \<open>pauseGame\<close> on a session whose status is \<open>GameOver\<close> sets the
  status to \<open>Playing\<close>.
\<close>

theorem pause_game_over_counterexample:
  "status \<lparr>snake = [\<lparr>posX = 19, posY = 10\<rparr>, \<lparr>posX = 18, posY = 10\<rparr>],
            food = \<lparr>posX = 5, posY = 5\<rparr>, direction = RIGHT, nextDirection = RIGHT,
            score = 30, highScore = 30, status = GameOver, mode = Walls, speed = 150\<rparr> = GameOver
   \<and> status (pauseGame
        \<lparr>snake = [\<lparr>posX = 19, posY = 10\<rparr>, \<lparr>posX = 18, posY = 10\<rparr>],
         food = \<lparr>posX = 5, posY = 5\<rparr>, direction = RIGHT, nextDirection = RIGHT,
         score = 30, highScore = 30, status = GameOver, mode = Walls, speed = 150\<rparr>) = Playing"
  by (simp add: pauseGame_def)

text \<open>
  C1, amended.  \<open>pauseGame\<close> changes the status only: \<open>Playing\<close> becomes \<open>Paused\<close>, and
  every other status (\<open>Paused\<close>, \<open>Idle\<close> and \<open>GameOver\<close>) becomes \<open>Playing\<close>; twice
  from \<open>Playing\<close> gives the state back.  The test for \<open>Playing\<close> or \<open>Paused\<close> is made
  by the callers, not by \<open>pauseGame\<close>: Escape changes nothing on \<open>Idle\<close> and \<open>GameOver\<close>,
  and the space key starts an \<open>Idle\<close> session and resets a \<open>GameOver\<close> one.  On a session
  whose status is \<open>GameOver\<close>, \<open>tick\<close> and \<open>setDirection\<close> change nothing, while
  \<open>pauseGame\<close> and \<open>startGame\<close> set the status to \<open>Playing\<close>.
\<close>

theorem pause_rule:
  "pauseGame s = s\<lparr>status := (if status s = Playing then Paused else Playing)\<rparr>
   \<and> (status s = Playing \<longrightarrow> status (pauseGame s) = Paused \<and> pauseGame (pauseGame s) = s)
   \<and> (status s = Paused \<longrightarrow> status (pauseGame s) = Playing)
   \<and> (status s = Idle \<longrightarrow> status (pauseGame s) = Playing)
   \<and> (status s = GameOver \<longrightarrow>
        status (pauseGame s) = Playing
        \<and> status (startGame s) = Playing
        \<and> tick rnd c st s = Some (Inr (s, c, st))
        \<and> setDirection d s = s
        \<and> keyEscape s = s
        \<and> keySpace rnd c st s = resetGame rnd c st None s)
   \<and> (status s = Idle \<longrightarrow> keyEscape s = s \<and> keySpace rnd c st s = Some (startGame s, c))"
  by (simp add: pauseGame_def startGame_def setDirection_def tick_not_playing keyEscape_def
      keySpace_def)

theorem pause_rule_witness:
  "status (pauseGame
      \<lparr>snake = [\<lparr>posX = 10, posY = 10\<rparr>, \<lparr>posX = 9, posY = 10\<rparr>, \<lparr>posX = 8, posY = 10\<rparr>],
       food = \<lparr>posX = 5, posY = 5\<rparr>, direction = RIGHT, nextDirection = RIGHT,
       score = 0, highScore = 0, status = Playing, mode = Walls, speed = 150\<rparr>) = Paused
   \<and> pauseGame (pauseGame
      \<lparr>snake = [\<lparr>posX = 10, posY = 10\<rparr>, \<lparr>posX = 9, posY = 10\<rparr>, \<lparr>posX = 8, posY = 10\<rparr>],
       food = \<lparr>posX = 5, posY = 5\<rparr>, direction = RIGHT, nextDirection = RIGHT,
       score = 0, highScore = 0, status = Playing, mode = Walls, speed = 150\<rparr>)
     = \<lparr>snake = [\<lparr>posX = 10, posY = 10\<rparr>, \<lparr>posX = 9, posY = 10\<rparr>, \<lparr>posX = 8, posY = 10\<rparr>],
        food = \<lparr>posX = 5, posY = 5\<rparr>, direction = RIGHT, nextDirection = RIGHT,
        score = 0, highScore = 0, status = Playing, mode = Walls, speed = 150\<rparr>
   \<and> tick (\<lambda>i. i) 0 []
        \<lparr>snake = [\<lparr>posX = 19, posY = 10\<rparr>, \<lparr>posX = 18, posY = 10\<rparr>],
         food = \<lparr>posX = 5, posY = 5\<rparr>, direction = RIGHT, nextDirection = RIGHT,
         score = 30, highScore = 30, status = GameOver, mode = Walls, speed = 150\<rparr>
     = Some (Inr (\<lparr>snake = [\<lparr>posX = 19, posY = 10\<rparr>, \<lparr>posX = 18, posY = 10\<rparr>],
         food = \<lparr>posX = 5, posY = 5\<rparr>, direction = RIGHT, nextDirection = RIGHT,
         score = 30, highScore = 30, status = GameOver, mode = Walls, speed = 150\<rparr>, 0, []))
   \<and> setDirection UP
        \<lparr>snake = [\<lparr>posX = 19, posY = 10\<rparr>, \<lparr>posX = 18, posY = 10\<rparr>],
         food = \<lparr>posX = 5, posY = 5\<rparr>, direction = RIGHT, nextDirection = RIGHT,
         score = 30, highScore = 30, status = GameOver, mode = Walls, speed = 150\<rparr>
     = \<lparr>snake = [\<lparr>posX = 19, posY = 10\<rparr>, \<lparr>posX = 18, posY = 10\<rparr>],
         food = \<lparr>posX = 5, posY = 5\<rparr>, direction = RIGHT, nextDirection = RIGHT,
         score = 30, highScore = 30, status = GameOver, mode = Walls, speed = 150\<rparr>"
proof -
  let ?p = "\<lparr>snake = [\<lparr>posX = 10, posY = 10\<rparr>, \<lparr>posX = 9, posY = 10\<rparr>, \<lparr>posX = 8, posY = 10\<rparr>],
       food = \<lparr>posX = 5, posY = 5\<rparr>, direction = RIGHT, nextDirection = RIGHT,
       score = 0, highScore = 0, status = Playing, mode = Walls, speed = 150\<rparr>"
  let ?g = "\<lparr>snake = [\<lparr>posX = 19, posY = 10\<rparr>, \<lparr>posX = 18, posY = 10\<rparr>],
         food = \<lparr>posX = 5, posY = 5\<rparr>, direction = RIGHT, nextDirection = RIGHT,
         score = 30, highScore = 30, status = GameOver, mode = Walls, speed = 150\<rparr>"
  have p: "status ?p = Playing" and g: "status ?g = GameOver"
    by simp_all
  from pause_rule [of ?p] p
  have "status (pauseGame ?p) = Paused \<and> pauseGame (pauseGame ?p) = ?p"
    by blast
  moreover from pause_rule [of ?g "\<lambda>i. i" 0 "[]" UP] g
  have "tick (\<lambda>i. i) 0 [] ?g = Some (Inr (?g, 0, [])) \<and> setDirection UP ?g = ?g"
    by blast
  ultimately show ?thesis by blast
qed

text \<open>
  C4.  For every session whose status is \<open>Playing\<close> and whose next move collides (with
  reason \<open>WALL\<close> or \<open>SELF\<close>), \<open>tick\<close> returns the session with the status \<open>GameOver\<close> and
  the high score \<open>max score highScore\<close>; the snake, the food, the score, both directions,
  the mode and the speed are unchanged, no random number is drawn, and the storage receives
  one write, of the score under the key of the mode, if and only if the score exceeds the
  previous high score.
\<close>

theorem tick_collision_frame:
  assumes "status prev = Playing"
    and "collisionReason (snake prev) (nextDirection prev) (mode prev) = Some r"
  shows "\<exists>s' st'. tick rnd c st prev = Some (Inr (s', c, st'))
           \<and> s' = prev\<lparr>status := GameOver, highScore := max (score prev) (highScore prev)\<rparr>
           \<and> status s' = GameOver
           \<and> snake s' = snake prev \<and> food s' = food prev \<and> score s' = score prev
           \<and> direction s' = direction prev \<and> nextDirection s' = nextDirection prev
           \<and> mode s' = mode prev \<and> speed s' = speed prev
           \<and> highScore s' = max (score prev) (highScore prev)
           \<and> st' = (if score prev > highScore prev
                    then setItem (mode prev) (score prev) st else st)
           \<and> (st' \<noteq> st) = (score prev > highScore prev)"
proof -
  from assms(2) obtain h rest where s: "snake prev = h # rest"
    by (cases "snake prev") (simp_all add: collisionReason_def)
  with assms(2) have "moveSnake (snake prev) (nextDirection prev) (mode prev) = Inr (snake prev, True)"
    by (auto simp: moveSnake_Cons collisionReason_Cons split: option.splits if_splits)
  from tick_on_collision [OF assms(1) this, of rnd c st] show ?thesis
    by (simp add: setItem_def)
qed

theorem tick_collision_frame_witness:
  "status \<lparr>snake = [\<lparr>posX = 19, posY = 10\<rparr>, \<lparr>posX = 18, posY = 10\<rparr>],
            food = \<lparr>posX = 5, posY = 5\<rparr>, direction = RIGHT, nextDirection = RIGHT,
            score = 30, highScore = 20, status = Playing, mode = Walls, speed = 150\<rparr> = Playing
   \<and> collisionReason [\<lparr>posX = 19, posY = 10\<rparr>, \<lparr>posX = 18, posY = 10\<rparr>] RIGHT Walls = Some WALL
   \<and> tick (\<lambda>i. i) 0 [(Walls, 20)]
        \<lparr>snake = [\<lparr>posX = 19, posY = 10\<rparr>, \<lparr>posX = 18, posY = 10\<rparr>],
         food = \<lparr>posX = 5, posY = 5\<rparr>, direction = RIGHT, nextDirection = RIGHT,
         score = 30, highScore = 20, status = Playing, mode = Walls, speed = 150\<rparr>
     = Some (Inr (\<lparr>snake = [\<lparr>posX = 19, posY = 10\<rparr>, \<lparr>posX = 18, posY = 10\<rparr>],
                   food = \<lparr>posX = 5, posY = 5\<rparr>, direction = RIGHT, nextDirection = RIGHT,
                   score = 30, highScore = 30, status = GameOver, mode = Walls, speed = 150\<rparr>,
                  0, [(Walls, 30), (Walls, 20)]))"
proof -
  let ?s = "\<lparr>snake = [\<lparr>posX = 19, posY = 10\<rparr>, \<lparr>posX = 18, posY = 10\<rparr>],
            food = \<lparr>posX = 5, posY = 5\<rparr>, direction = RIGHT, nextDirection = RIGHT,
            score = 30, highScore = 20, status = Playing, mode = Walls, speed = 150\<rparr>"
  have p: "status ?s = Playing" by simp
  have w: "collisionReason (snake ?s) (nextDirection ?s) (mode ?s) = Some WALL"
    by (simp add: collisionReason_Cons proposedHead_Walls outOfBounds_def GRID_SIZE_def)
  from tick_collision_frame [OF p w, of "\<lambda>i. i" 0 "[(Walls, 20)]"] w show ?thesis
    by (simp add: setItem_def)
qed

lemma origin_not_in_tl_boardPath: "\<lparr>posX = 0, posY = 0\<rparr> \<notin> set (tl boardPath)"
  by (auto simp: boardPath_Cons boardColumn_def simp del: upt_rec_numeral)

lemma crowdedSnake_Cons:
  "crowdedSnake = \<lparr>posX = 0, posY = 1\<rparr> # (tl (tl boardPath) @ [\<lparr>posX = 19, posY = 0\<rparr>])"
  by (simp add: crowdedSnake_def boardPath_Cons del: upt_rec_numeral)

lemma butlast_crowdedSnake: "butlast crowdedSnake = tl boardPath"
  by (simp add: crowdedSnake_def)

lemma origin_not_in_crowdedSnake: "\<lparr>posX = 0, posY = 0\<rparr> \<notin> set crowdedSnake"
  using origin_not_in_tl_boardPath by (simp add: crowdedSnake_def)

lemma origin_Cons_butlast_crowdedSnake:
  "\<lparr>posX = 0, posY = 0\<rparr> # butlast crowdedSnake = boardPath"
  by (simp add: butlast_crowdedSnake boardPath_Cons del: upt_rec_numeral)

lemma moveSnake_crowdedSnake:
  "moveSnake crowdedSnake UP m = Inr (\<lparr>posX = 0, posY = 0\<rparr> # butlast crowdedSnake, False)"
proof -
  have p: "proposedHead \<lparr>posX = 0, posY = 1\<rparr> UP m = Some \<lparr>posX = 0, posY = 0\<rparr>"
    by (cases m)
      (simp_all add: proposedHead_def wrapHead_def outOfBounds_def GRID_SIZE_def jsRem_def)
  have free: "\<lparr>posX = 0, posY = 0\<rparr> \<notin> set (butlast (drop 2 crowdedSnake))"
    using origin_not_in_crowdedSnake by (auto dest: in_set_butlastD in_set_dropD)
  obtain rest where cs: "crowdedSnake = \<lparr>posX = 0, posY = 1\<rparr> # rest"
    using crowdedSnake_Cons by blast
  from p free [unfolded cs]
  have "moveSnake (\<lparr>posX = 0, posY = 1\<rparr> # rest) UP m
          = Inr (\<lparr>posX = 0, posY = 0\<rparr> # butlast (\<lparr>posX = 0, posY = 1\<rparr> # rest), False)"
    by (simp add: moveSnake_Cons)
  then show ?thesis unfolding cs .
qed

text \<open>
  C5, as stated, fails: on \<open>crowdedSession\<close> the status is \<open>Playing\<close> and the next move
  does not collide; the new head takes the food on the last free cell, the grown snake
  covers the board, and \<open>tick\<close> never returns, so no new food cell is generated.
\<close>

theorem tick_hangs_counterexample:
  "status crowdedSession = Playing
   \<and> collisionReason (snake crowdedSession) (nextDirection crowdedSession) (mode crowdedSession)
       = None
   \<and> tick (\<lambda>i. i) 0 [] crowdedSession = None"
proof -
  have mv: "moveSnake (snake crowdedSession) (nextDirection crowdedSession) (mode crowdedSession)
              = Inr (food crowdedSession # butlast crowdedSnake, False)"
    by (simp add: crowdedSession_def moveSnake_crowdedSnake)
  have "snake crowdedSession = crowdedSnake"
    by (simp add: crowdedSession_def)
  then obtain rest where "snake crowdedSession = \<lparr>posX = 0, posY = 1\<rparr> # rest"
    using crowdedSnake_Cons by simp
  with mv have ok: "collisionReason (snake crowdedSession) (nextDirection crowdedSession)
                      (mode crowdedSession) = None"
    using moveSnake_collisionReason by fastforce
  have "food crowdedSession # butlast crowdedSnake = boardPath"
    by (simp add: crowdedSession_def origin_Cons_butlast_crowdedSnake)
  then have "set boardPath \<subseteq> set (growSnake (food crowdedSession # butlast crowdedSnake))"
    by (auto simp: growSnake_def Let_def)
  then have "generateRandomPosition (\<lambda>i. i) 0
               (growSnake (food crowdedSession # butlast crowdedSnake)) = None"
    by (rule generateRandomPosition_crowded)
  moreover have "status crowdedSession = Playing"
    by (simp add: crowdedSession_def)
  ultimately show ?thesis
    using ok tick_on_eat [OF _ mv, of "\<lambda>i. i" 0 "[]"] by simp
qed

text \<open>
  C5, amended.  For every session whose status is \<open>Playing\<close> and whose next move does not
  collide, the new head is the head moved one cell in the pending direction (wrapped in
  pass-through mode).  If the new head is not on the food, \<open>tick\<close> returns the session
  with the new head in front, the last segment dropped and the pending direction
  committed; length, score, food, storage and cursor are unchanged.  If the new head is
  on the food, the grown snake is one segment longer than the snake, and: when some draw
  of the random source falls outside the grown snake, \<open>tick\<close> returns the session with
  the grown snake, the pending direction committed, the score increased by 10, the speed
  \<open>calculateSpeed\<close> of the new score, the high score raised to the new score if beaten
  (and then written), and as food the first drawn cell that is not in the grown snake;
  when no draw ever falls outside the grown snake (as when it covers the board), \<open>tick\<close>
  does not return.
\<close>

theorem tick_advance_rule:
  assumes "status prev = Playing"
    and "snake prev = h # rest"
    and "collisionReason (snake prev) (nextDirection prev) (mode prev) = None"
  shows "\<exists>nh. proposedHead h (nextDirection prev) (mode prev) = Some nh
           \<and> nh = (if mode prev = PassThrough then wrapHead (stepHead h (nextDirection prev))
                    else stepHead h (nextDirection prev))
           \<and> (nh \<noteq> food prev \<longrightarrow>
                tick rnd c st prev
                  = Some (Inr (prev\<lparr>snake := nh # butlast (snake prev),
                                    direction := nextDirection prev\<rparr>, c, st))
                \<and> length (nh # butlast (snake prev)) = length (snake prev))
           \<and> (nh = food prev \<longrightarrow>
                length (growSnake (nh # butlast (snake prev))) = length (snake prev) + 1
                \<and> ((\<forall>k. drawnCell rnd (c + 2 * k) GRID_SIZE
                          \<in> set (growSnake (nh # butlast (snake prev))))
                     \<longrightarrow> tick rnd c st prev = None)
                \<and> ((\<exists>k. drawnCell rnd (c + 2 * k) GRID_SIZE
                          \<notin> set (growSnake (nh # butlast (snake prev))))
                     \<longrightarrow> (\<exists>food' c'.
                           tick rnd c st prev
                             = Some (Inr (prev\<lparr>snake := growSnake (nh # butlast (snake prev)),
                                               food := food',
                                               direction := nextDirection prev,
                                               score := score prev + 10,
                                               highScore := max (score prev + 10) (highScore prev),
                                               speed := calculateSpeed (score prev + 10)\<rparr>,
                                          c',
                                          if score prev + 10 > highScore prev
                                          then setItem (mode prev)
                                                 (max (score prev + 10) (highScore prev)) st
                                          else st))
                           \<and> food' \<notin> set (growSnake (nh # butlast (snake prev)))
                           \<and> inGrid GRID_SIZE food'
                           \<and> firstFree rnd c GRID_SIZE (growSnake (nh # butlast (snake prev)))
                                 (food', c'))))"
proof -
  from assms(2,3) obtain nh where p: "proposedHead h (nextDirection prev) (mode prev) = Some nh"
    and free: "nh \<notin> set (butlast (drop 2 (h # rest)))"
    by (auto simp: collisionReason_Cons split: option.splits if_splits)
  with assms(2)
  have mv: "moveSnake (snake prev) (nextDirection prev) (mode prev)
              = Inr (nh # butlast (snake prev), False)"
    by (simp add: moveSnake_Cons)
  from p have step: "nh = (if mode prev = PassThrough
                           then wrapHead (stepHead h (nextDirection prev))
                           else stepHead h (nextDirection prev))"
    by (auto simp: proposedHead_def Let_def split: if_splits)
  let ?grown = "growSnake (nh # butlast (snake prev))"
  have adv: "tick rnd c st prev
                = Some (Inr (prev\<lparr>snake := nh # butlast (snake prev),
                                  direction := nextDirection prev\<rparr>, c, st))
             \<and> length (nh # butlast (snake prev)) = length (snake prev)"
    if "nh \<noteq> food prev"
    using tick_on_advance [OF assms(1) mv that] assms(2) by simp
  have len: "length ?grown = length (snake prev) + 1"
    using assms(2) by (simp add: length_growSnake)
  have hang: "tick rnd c st prev = None"
    if "nh = food prev" and "\<forall>k. drawnCell rnd (c + 2 * k) GRID_SIZE \<in> set ?grown"
  proof -
    from that(2) have "generateRandomPosition rnd c ?grown = None"
      by (rule generateRandomPosition_diverges)
    with tick_on_eat [OF assms(1) mv [unfolded that(1)], of rnd c st] that(1) show ?thesis
      by simp
  qed
  have eat: "\<exists>food' c'.
               tick rnd c st prev
                 = Some (Inr (prev\<lparr>snake := ?grown, food := food',
                                   direction := nextDirection prev,
                                   score := score prev + 10,
                                   highScore := max (score prev + 10) (highScore prev),
                                   speed := calculateSpeed (score prev + 10)\<rparr>,
                              c',
                              if score prev + 10 > highScore prev
                              then setItem (mode prev) (max (score prev + 10) (highScore prev)) st
                              else st))
               \<and> food' \<notin> set ?grown \<and> inGrid GRID_SIZE food'
               \<and> firstFree rnd c GRID_SIZE ?grown (food', c')"
    if "nh = food prev" and "\<exists>k. drawnCell rnd (c + 2 * k) GRID_SIZE \<notin> set ?grown"
  proof -
    from that(2) obtain food' c' where g: "generateRandomPosition rnd c ?grown = Some (food', c')"
      using generateRandomPosition_returns by (metis surj_pair)
    then have ff: "firstFree rnd c GRID_SIZE ?grown (food', c')"
      by (rule generateRandomPosition_sound)
    then have out: "food' \<notin> set ?grown" and board: "inGrid GRID_SIZE food'"
      by (auto dest: firstFree_free firstFree_inGrid [rotated] simp: GRID_SIZE_def)
    from g tick_on_eat [OF assms(1) mv [unfolded that(1)], of rnd c st] that(1)
    have "tick rnd c st prev
            = Some (Inr (prev\<lparr>snake := ?grown, food := food',
                              direction := nextDirection prev,
                              score := score prev + 10,
                              highScore := max (score prev + 10) (highScore prev),
                              speed := calculateSpeed (score prev + 10)\<rparr>,
                         c',
                         if score prev + 10 > highScore prev
                         then setItem (mode prev) (max (score prev + 10) (highScore prev)) st
                         else st))"
      by simp
    with ff out board show ?thesis by blast
  qed
  from p step adv len hang eat show ?thesis by blast
qed

theorem tick_advance_rule_witness:
  "tick (\<lambda>i. i) 0 []
     \<lparr>snake = [\<lparr>posX = 10, posY = 10\<rparr>, \<lparr>posX = 9, posY = 10\<rparr>, \<lparr>posX = 8, posY = 10\<rparr>],
      food = \<lparr>posX = 11, posY = 10\<rparr>, direction = RIGHT, nextDirection = RIGHT,
      score = 0, highScore = 0, status = Playing, mode = Walls, speed = 150\<rparr>
   = Some (Inr (\<lparr>snake = [\<lparr>posX = 11, posY = 10\<rparr>, \<lparr>posX = 10, posY = 10\<rparr>,
                          \<lparr>posX = 9, posY = 10\<rparr>, \<lparr>posX = 9, posY = 10\<rparr>],
                 food = \<lparr>posX = 0, posY = 1\<rparr>, direction = RIGHT, nextDirection = RIGHT,
                 score = 10, highScore = 10, status = Playing, mode = Walls, speed = 150\<rparr>,
                2, [(Walls, 10)]))
   \<and> tick (\<lambda>i. i) 0 []
     \<lparr>snake = [\<lparr>posX = 10, posY = 10\<rparr>, \<lparr>posX = 9, posY = 10\<rparr>, \<lparr>posX = 8, posY = 10\<rparr>],
      food = \<lparr>posX = 5, posY = 5\<rparr>, direction = RIGHT, nextDirection = RIGHT,
      score = 0, highScore = 0, status = Playing, mode = Walls, speed = 150\<rparr>
   = Some (Inr (\<lparr>snake = [\<lparr>posX = 11, posY = 10\<rparr>, \<lparr>posX = 10, posY = 10\<rparr>,
                          \<lparr>posX = 9, posY = 10\<rparr>],
                 food = \<lparr>posX = 5, posY = 5\<rparr>, direction = RIGHT, nextDirection = RIGHT,
                 score = 0, highScore = 0, status = Playing, mode = Walls, speed = 150\<rparr>,
                0, []))"
proof -
  let ?h = "\<lparr>posX = 10, posY = 10\<rparr>"
  let ?rest = "[\<lparr>posX = 9, posY = 10\<rparr>, \<lparr>posX = 8, posY = 10\<rparr>]"
  let ?eat = "\<lparr>snake = ?h # ?rest,
      food = \<lparr>posX = 11, posY = 10\<rparr>, direction = RIGHT, nextDirection = RIGHT,
      score = 0, highScore = 0, status = Playing, mode = Walls, speed = 150\<rparr>"
  let ?go = "\<lparr>snake = ?h # ?rest,
      food = \<lparr>posX = 5, posY = 5\<rparr>, direction = RIGHT, nextDirection = RIGHT,
      score = 0, highScore = 0, status = Playing, mode = Walls, speed = 150\<rparr>"
  let ?grown = "[\<lparr>posX = 11, posY = 10\<rparr>, \<lparr>posX = 10, posY = 10\<rparr>,
                 \<lparr>posX = 9, posY = 10\<rparr>, \<lparr>posX = 9, posY = 10\<rparr>]"
  have p: "proposedHead ?h RIGHT Walls = Some \<lparr>posX = 11, posY = 10\<rparr>"
    by (simp add: proposedHead_Walls outOfBounds_def GRID_SIZE_def)
  have ok: "collisionReason (?h # ?rest) RIGHT Walls = None"
    by (simp add: collisionReason_Cons p)
  have grown: "growSnake (\<lparr>posX = 11, posY = 10\<rparr> # butlast (?h # ?rest)) = ?grown"
    by (simp add: growSnake_def)
  have cell: "drawnCell (\<lambda>i. i) 0 GRID_SIZE = \<lparr>posX = 0, posY = 1\<rparr>"
    by (simp add: drawnCell_def randomBelow_def GRID_SIZE_def)
  then have "drawnCell (\<lambda>i. i) (0 + 2 * 0) GRID_SIZE \<notin> set ?grown"
    by simp
  then have free: "\<exists>k. drawnCell (\<lambda>i. i) (0 + 2 * k) GRID_SIZE \<notin> set ?grown"
    by (rule exI)
  from cell have first: "firstFree (\<lambda>i. i) 0 GRID_SIZE ?grown (\<lparr>posX = 0, posY = 1\<rparr>, 2)"
    using firstFree_here [of "\<lambda>i. i" 0 GRID_SIZE ?grown] by (simp add: numeral_2_eq_2)
  from tick_advance_rule [of ?eat ?h ?rest "\<lambda>i. i" 0 "[]"] p ok grown free
  obtain food' c' where
    t: "tick (\<lambda>i. i) 0 [] ?eat
          = Some (Inr (?eat\<lparr>snake := ?grown, food := food', direction := RIGHT, score := 10,
                            highScore := 10, speed := calculateSpeed 10\<rparr>, c', [(Walls, 10)]))"
    and ff: "firstFree (\<lambda>i. i) 0 GRID_SIZE ?grown (food', c')"
    by (auto simp: setItem_def simp del: set_simps)
  from ff first have "(food', c') = (\<lparr>posX = 0, posY = 1\<rparr>, 2)"
    by (rule firstFree_unique)
  with t have eat: "tick (\<lambda>i. i) 0 [] ?eat
        = Some (Inr (?eat\<lparr>snake := ?grown, food := \<lparr>posX = 0, posY = 1\<rparr>, direction := RIGHT,
                          score := 10, highScore := 10, speed := 150\<rparr>, 2, [(Walls, 10)]))"
    by (simp add: calculateSpeed_unfold)
  from tick_advance_rule [of ?go ?h ?rest "\<lambda>i. i" 0 "[]"] p ok
  have "tick (\<lambda>i. i) 0 [] ?go
          = Some (Inr (?go\<lparr>snake := \<lparr>posX = 11, posY = 10\<rparr> # butlast (?h # ?rest),
                           direction := RIGHT\<rparr>, 0, []))"
    by simp
  with eat show ?thesis by simp
qed

section \<open>Reachable sessions and direction requests\<close>

lemma sessionInvariant_Cons:
  "sessionInvariant s = (\<exists>h n rest. snake s = h # n # rest
       \<and> inGrid GRID_SIZE h \<and> inGrid GRID_SIZE n
       \<and> h = wrapHead (stepHead n (direction s))
       \<and> nextDirection s \<noteq> getOppositeDirection (direction s))"
  by (auto simp: sessionInvariant_def split: list.splits)

lemma sessionInvariant_tick:
  assumes inv: "sessionInvariant s" and t: "tick rnd c st s = Some (Inr (s', c', st'))"
  shows "sessionInvariant s'"
proof (cases "status s = Playing")
  case False
  with t inv show ?thesis by (simp add: tick_not_playing)
next
  case True
  from inv obtain h n rest where sn: "snake s = h # n # rest"
    and h: "inGrid GRID_SIZE h" and n: "inGrid GRID_SIZE n"
    and hn: "h = wrapHead (stepHead n (direction s))"
    and nd: "nextDirection s \<noteq> getOppositeDirection (direction s)"
    unfolding sessionInvariant_Cons by blast
  from tick_Playing_cases [OF True sn t] show ?thesis
  proof (elim disjE exE conjE)
    assume "snake s' = snake s" "direction s' = direction s" "nextDirection s' = nextDirection s"
    with sn h n hn nd show ?thesis
      unfolding sessionInvariant_Cons by simp
  next
    fix nh tl'
    assume p: "proposedHead h (nextDirection s) (mode s) = Some nh"
      and d: "direction s' = nextDirection s" "nextDirection s' = nextDirection s"
      and s': "snake s' = nh # butlast (snake s) @ tl'"
    from proposedHead_inGrid [OF h p]
    have "inGrid GRID_SIZE nh" and "nh = wrapHead (stepHead h (nextDirection s))" .
    moreover have "nextDirection s \<noteq> getOppositeDirection (nextDirection s)"
      by (cases "nextDirection s") simp_all
    ultimately show ?thesis
      unfolding sessionInvariant_Cons using s' sn d h by simp
  qed
qed

lemma sessionInvariant_init:
  assumes "createInitialState rnd c st m = Some (s, c')"
  shows "sessionInvariant s"
proof -
  from assms have "snake s = initialSnake" and "direction s = RIGHT" and "nextDirection s = RIGHT"
    by (auto simp: createInitialState_def split: option.splits)
  then show ?thesis
    unfolding sessionInvariant_Cons
    by (simp add: initialSnake_def inGrid_def wrapHead_def GRID_SIZE_def jsRem_def)
qed

lemma reachable_invariant: "reachable s \<Longrightarrow> sessionInvariant s"
proof (induction rule: reachable.induct)
  case (reach_init rnd c st m s c')
  then show ?case by (rule sessionInvariant_init)
next
  case (reach_start s)
  then show ?case by (simp add: sessionInvariant_Cons startGame_def)
next
  case (reach_pause s)
  then show ?case by (simp add: sessionInvariant_Cons pauseGame_def)
next
  case (reach_setDirection s d)
  then show ?case by (auto simp: sessionInvariant_Cons setDirection_def)
next
  case (reach_tick s rnd c st s' c' st')
  then show ?case by (blast intro: sessionInvariant_tick)
next
  case (reach_reset s rnd c st mo s' c')
  then show ?case by (auto simp: resetGame_def intro: sessionInvariant_init)
qed






text \<open>
  Only a record that no session reaches, one whose committed direction disagrees with how
  the snake lies, lets a tick step onto the second segment: here the snake points up while
  the committed direction is \<open>RIGHT\<close>.
\<close>

lemma stale_direction_record:
  "\<not> reachable
       \<lparr>snake = [\<lparr>posX = 10, posY = 10\<rparr>, \<lparr>posX = 10, posY = 11\<rparr>, \<lparr>posX = 10, posY = 12\<rparr>],
        food = \<lparr>posX = 0, posY = 1\<rparr>, direction = RIGHT, nextDirection = RIGHT,
        score = 0, highScore = 0, status = Playing, mode = Walls, speed = 150\<rparr>
   \<and> tick (\<lambda>i. i) 0 [] (setDirection DOWN (setDirection UP
       \<lparr>snake = [\<lparr>posX = 10, posY = 10\<rparr>, \<lparr>posX = 10, posY = 11\<rparr>, \<lparr>posX = 10, posY = 12\<rparr>],
        food = \<lparr>posX = 0, posY = 1\<rparr>, direction = RIGHT, nextDirection = RIGHT,
        score = 0, highScore = 0, status = Playing, mode = Walls, speed = 150\<rparr>))
     = Some (Inr (\<lparr>snake = [\<lparr>posX = 10, posY = 11\<rparr>, \<lparr>posX = 10, posY = 10\<rparr>,
                            \<lparr>posX = 10, posY = 11\<rparr>],
                   food = \<lparr>posX = 0, posY = 1\<rparr>, direction = DOWN, nextDirection = DOWN,
                   score = 0, highScore = 0, status = Playing, mode = Walls, speed = 150\<rparr>,
                  0, []))"
proof -
  let ?s = "\<lparr>snake = [\<lparr>posX = 10, posY = 10\<rparr>, \<lparr>posX = 10, posY = 11\<rparr>, \<lparr>posX = 10, posY = 12\<rparr>],
        food = \<lparr>posX = 0, posY = 1\<rparr>, direction = RIGHT, nextDirection = RIGHT,
        score = 0, highScore = 0, status = Playing, mode = Walls, speed = 150\<rparr>"
  have "\<not> sessionInvariant ?s"
    by (simp add: sessionInvariant_def wrapHead_def GRID_SIZE_def jsRem_def)
  then have "\<not> reachable ?s"
    using reachable_invariant by blast
  moreover have "tick (\<lambda>i. i) 0 [] (setDirection DOWN (setDirection UP ?s))
     = Some (Inr (\<lparr>snake = [\<lparr>posX = 10, posY = 11\<rparr>, \<lparr>posX = 10, posY = 10\<rparr>,
                            \<lparr>posX = 10, posY = 11\<rparr>],
                   food = \<lparr>posX = 0, posY = 1\<rparr>, direction = DOWN, nextDirection = DOWN,
                   score = 0, highScore = 0, status = Playing, mode = Walls, speed = 150\<rparr>,
                  0, []))"
    by (simp add: setDirection_def tick_def moveSnake_Cons proposedHead_Walls outOfBounds_def
        GRID_SIZE_def checkFoodCollision_def)
  ultimately show ?thesis by blast
qed




section \<open>The spectator simulation: properties\<close>

lemma chooseDirection_not_opposite:
  "fst (chooseDirection rnd c d) \<noteq> getOppositeDirection d"
proof -
  have "nat (randomBelow rnd (Suc c) 3) < 3"
    by (simp add: randomBelow_def)
  note pick = nth_three_neq [OF this]
  show ?thesis
    by (cases d) (simp_all add: chooseDirection_def directions_def Let_def pick)
qed

lemma simulatePlayerTick_advance:
  assumes "lp_snake p = h # rest" and "spectatorStep g h (lp_direction p) \<noteq> lp_food p"
  shows "simulatePlayerTick rnd c p g =
           Some (Inr (p\<lparr>lp_snake := spectatorStep g h (lp_direction p) # butlast (h # rest),
                          lp_food := lp_food p,
                          lp_direction := fst (chooseDirection rnd c (lp_direction p)),
                          lp_score := lp_score p\<rparr>,
                      snd (chooseDirection rnd c (lp_direction p))))"
  using assms
  by (simp add: simulatePlayerTick_def Let_def Position_eq_iff split: prod.splits)

lemma simulatePlayerTick_eat:
  assumes "lp_snake p = h # rest" and "spectatorStep g h (lp_direction p) = lp_food p"
  shows "simulatePlayerTick rnd c p g =
           (case generateRandomFood rnd c g (lp_food p # h # rest) of
              None \<Rightarrow> None
            | Some (f, c1) \<Rightarrow>
                Some (Inr (p\<lparr>lp_snake := lp_food p # h # rest, lp_food := f,
                             lp_direction := fst (chooseDirection rnd c1 (lp_direction p)),
                             lp_score := lp_score p + 10\<rparr>,
                           snd (chooseDirection rnd c1 (lp_direction p)))))"
  using assms
  by (simp add: simulatePlayerTick_def Let_def split: prod.splits option.splits)

subsection \<open>The store\<close>

lemma extends_refl: "extends s s"
  by (simp add: extends_def)

lemma extends_trans: "extends s t \<Longrightarrow> extends t u \<Longrightarrow> extends s u"
  by (auto simp: extends_def)

lemma newCell_extends:
  assumes "newCell v s = (a, s')"
  shows "a = fresh s" and "extends s s'" and "cells s' a = Some v" and "fresh s' = Suc (fresh s)"
    and "arrays s' = arrays s" and "players s' = players s"
  using assms by (auto simp: newCell_def extends_def)

lemma newArray_extends:
  assumes "newArray v s = (a, s')"
  shows "a = fresh s" and "extends s s'" and "arrays s' a = Some v" and "fresh s' = Suc (fresh s)"
    and "cells s' = cells s" and "players s' = players s"
  using assms by (auto simp: newArray_def extends_def)

lemma newPlayer_extends:
  assumes "newPlayer v s = (a, s')"
  shows "a = fresh s" and "extends s s'" and "players s' a = Some v" and "fresh s' = Suc (fresh s)"
    and "cells s' = cells s" and "arrays s' = arrays s"
  using assms by (auto simp: newPlayer_def extends_def)

lemma wellFormed_iff:
  "wellFormed s =
     ((\<forall>a v. cells s a = Some v \<longrightarrow> a < fresh s)
      \<and> (\<forall>a v. arrays s a = Some v \<longrightarrow> a < fresh s)
      \<and> (\<forall>a v. players s a = Some v \<longrightarrow> a < fresh s))"
  unfolding wellFormed_def by blast

lemma newCell_wellFormed: "wellFormed s \<Longrightarrow> newCell v s = (a, s') \<Longrightarrow> wellFormed s'"
  unfolding wellFormed_iff by (auto simp: newCell_def less_Suc_eq split: if_splits)

lemma newArray_wellFormed: "wellFormed s \<Longrightarrow> newArray v s = (a, s') \<Longrightarrow> wellFormed s'"
  unfolding wellFormed_iff by (auto simp: newArray_def less_Suc_eq split: if_splits)

lemma newPlayer_wellFormed: "wellFormed s \<Longrightarrow> newPlayer v s = (a, s') \<Longrightarrow> wellFormed s'"
  unfolding wellFormed_iff by (auto simp: newPlayer_def less_Suc_eq split: if_splits)

lemma popArray_extends:
  "extends s0 s \<Longrightarrow> fresh s0 \<le> a \<Longrightarrow> extends s0 (popArray a s)"
  by (auto simp: popArray_def extends_def split: option.splits)

lemma popArray_wellFormed: "wellFormed s \<Longrightarrow> wellFormed (popArray a s)"
  unfolding wellFormed_iff by (auto simp: popArray_def split: option.splits if_splits)

lemma those_map_Some: "(those (map f xs) = Some ys) = (map f xs = map Some ys)"
  by (induction xs arbitrary: ys) (auto split: option.splits)

lemma cells_extends:
  assumes "wellFormed s" and "extends s s'" and "cells s a = Some v"
  shows "cells s' a = Some v"
proof -
  from assms(1,3) have "a < fresh s"
    unfolding wellFormed_iff by blast
  with assms(2,3) show ?thesis
    by (simp add: extends_def)
qed

lemma readArray_extends:
  assumes wf: "wellFormed s" and ex: "extends s s'" and ra: "readArray s a = Some segs"
  shows "readArray s' a = Some segs"
proof -
  from ra obtain refs where refs: "arrays s a = Some refs"
    and th: "map (cells s) refs = map Some segs"
    by (auto simp: readArray_def those_map_Some split: option.splits)
  from refs wf have "a < fresh s"
    unfolding wellFormed_iff by blast
  with ex refs have refs': "arrays s' a = Some refs"
    by (simp add: extends_def)
  have "cells s' x = cells s x" if "x \<in> set refs" for x
  proof -
    from that th obtain v where "cells s x = Some v"
      by (metis (no_types, lifting) imageE image_eqI list.set_map)
    with cells_extends [OF wf ex this] show ?thesis by simp
  qed
  then have "map (cells s') refs = map (cells s) refs"
    by simp
  with th refs' show ?thesis
    by (simp add: readArray_def those_map_Some)
qed

lemma snapshot_extends:
  assumes wf: "wellFormed s" and ex: "extends s s'" and sn: "snapshot s r = Some p"
  shows "snapshot s' r = Some p"
proof -
  from sn obtain ob segs f where ob: "players s r = Some ob"
    and ra: "readArray s (o_snake ob) = Some segs" and fd: "cells s (o_food ob) = Some f"
    by (auto simp: snapshot_def split: option.splits)
  from ob wf have "r < fresh s"
    unfolding wellFormed_iff by blast
  with ex ob have "players s' r = Some ob"
    by (simp add: extends_def)
  with readArray_extends [OF wf ex ra] cells_extends [OF wf ex fd] sn ob ra fd show ?thesis
    by (simp add: snapshot_def)
qed

lemma extends_untouched: "wellFormed s \<Longrightarrow> extends s s' \<Longrightarrow> untouched s s'"
  by (auto simp: wellFormed_iff extends_def untouched_def)

lemma generateRandomFood_store_unfold:
  assumes wf: "wellFormed s" and ra: "readArray s a = Some segs"
    and nc: "newCell (drawnCell rnd c g) s = (fr, s1)"
  shows "generateRandomFood_store rnd c g a s =
           (if drawnCell rnd c g \<in> set segs then generateRandomFood_store rnd (c + 2) g a s1
            else Some (Inr (fr, c + 2, s1)))"
proof -
  note ex = newCell_extends(2) [OF nc] and f = newCell_extends(3) [OF nc]
  from readArray_extends [OF wf ex ra] have ra1: "readArray s1 a = Some segs" .
  have step: "generateRandomFood_store rnd c g a s =
     (case newCell (drawnCell rnd c g) s of
        (foodRef, s1) \<Rightarrow>
          (case (cells s1 foodRef, readArray s1 a) of
             (Some food', Some segments) \<Rightarrow>
               if list_ex (\<lambda>segment. posX segment = posX food' \<and> posY segment = posY food')
                    segments
               then generateRandomFood_store rnd (c + 2) g a s1
               else Some (Inr (foodRef, c + 2, s1))
           | _ \<Rightarrow> Some (Inl TypeError)))"
    by (subst generateRandomFood_store.simps, unfold drawnCell_def, rule refl)
  show ?thesis
    unfolding step nc by (simp add: f ra1 occupied_iff)
qed

lemma generateRandomFood_store_returns:
  assumes "wellFormed s" and "readArray s a = Some segs"
    and "drawnCell rnd (c + 2 * k) g \<notin> set segs"
    and "\<forall>j<k. drawnCell rnd (c + 2 * j) g \<in> set segs"
  shows "\<exists>fr s'. generateRandomFood_store rnd c g a s = Some (Inr (fr, c + 2 * k + 2, s'))
           \<and> cells s' fr = Some (drawnCell rnd (c + 2 * k) g)
           \<and> extends s s' \<and> wellFormed s'"
  using assms
proof (induction k arbitrary: c s)
  case 0
  obtain fr s1 where nc: "newCell (drawnCell rnd c g) s = (fr, s1)"
    by (cases "newCell (drawnCell rnd c g) s")
  from newCell_extends(2,3) [OF nc] newCell_wellFormed [OF "0.prems"(1) nc] "0.prems"(3)
    generateRandomFood_store_unfold [OF "0.prems"(1,2) nc]
  show ?case by simp
next
  case (Suc k)
  obtain fr s1 where nc: "newCell (drawnCell rnd c g) s = (fr, s1)"
    by (cases "newCell (drawnCell rnd c g) s")
  note ex = newCell_extends(2) [OF nc]
  have wf1: "wellFormed s1"
    using Suc.prems(1) nc by (rule newCell_wellFormed)
  have ra1: "readArray s1 a = Some segs"
    using Suc.prems(1) ex Suc.prems(2) by (rule readArray_extends)
  from Suc.prems(4) have here: "drawnCell rnd c g \<in> set segs"
    by (metis add.right_neutral mult_0_right zero_less_Suc)
  from Suc.prems(3) have free: "drawnCell rnd (c + 2 + 2 * k) g \<notin> set segs"
    by (simp add: add.assoc)
  have occ: "\<forall>j<k. drawnCell rnd (c + 2 + 2 * j) g \<in> set segs"
  proof (intro allI impI)
    fix j assume "j < k"
    then have "Suc j < Suc k" by simp
    with Suc.prems(4) have "drawnCell rnd (c + 2 * Suc j) g \<in> set segs" by blast
    then show "drawnCell rnd (c + 2 + 2 * j) g \<in> set segs" by (simp add: add.assoc)
  qed
  from Suc.IH [OF wf1 ra1 free occ] obtain fr' s' where
    r: "generateRandomFood_store rnd (c + 2) g a s1 = Some (Inr (fr', c + 2 + 2 * k + 2, s'))"
    and f: "cells s' fr' = Some (drawnCell rnd (c + 2 + 2 * k) g)"
    and ex': "extends s1 s'" and wf': "wellFormed s'"
    by blast
  from generateRandomFood_store_unfold [OF Suc.prems(1,2) nc] here r
  have "generateRandomFood_store rnd c g a s = Some (Inr (fr', c + 2 * Suc k + 2, s'))"
    by (simp add: add.assoc)
  moreover from f have "cells s' fr' = Some (drawnCell rnd (c + 2 * Suc k) g)"
    by (simp add: add.assoc)
  moreover from ex ex' have "extends s s'" by (rule extends_trans)
  ultimately show ?case using wf' by blast
qed

lemma generateRandomFood_store_sound:
  assumes "generateRandomFood_store rnd c g a s = Some r"
  shows "\<forall>segs. wellFormed s \<longrightarrow> readArray s a = Some segs
           \<longrightarrow> (\<exists>k. drawnCell rnd (c + 2 * k) g \<notin> set segs)"
proof (rule generateRandomFood_store.raw_induct
         [where P = "\<lambda>rnd c g a s r. \<forall>segs. wellFormed s \<longrightarrow> readArray s a = Some segs
                       \<longrightarrow> (\<exists>k. drawnCell rnd (c + 2 * k) g \<notin> set segs)", OF _ assms])
  fix loop :: "(nat \<Rightarrow> nat) \<Rightarrow> nat \<Rightarrow> int \<Rightarrow> nat \<Rightarrow> Store \<Rightarrow> (error + nat \<times> nat \<times> Store) option"
    and rnd c g a s r
  assume IH: "\<And>rnd c g a s r. loop rnd c g a s = Some r \<Longrightarrow>
                \<forall>segs. wellFormed s \<longrightarrow> readArray s a = Some segs
                  \<longrightarrow> (\<exists>k. drawnCell rnd (c + 2 * k) g \<notin> set segs)"
    and body: "(case newCell \<lparr>posX = randomBelow rnd c g, posY = randomBelow rnd (c + 1) g\<rparr> s of
                  (foodRef, s1) \<Rightarrow>
                    (case (cells s1 foodRef, readArray s1 a) of
                       (Some food', Some segments) \<Rightarrow>
                         if list_ex (\<lambda>segment. posX segment = posX food' \<and> posY segment = posY food')
                              segments
                         then loop rnd (c + 2) g a s1
                         else Some (Inr (foodRef, c + 2, s1))
                     | _ \<Rightarrow> Some (Inl TypeError))) = Some r"
  show "\<forall>segs. wellFormed s \<longrightarrow> readArray s a = Some segs
          \<longrightarrow> (\<exists>k. drawnCell rnd (c + 2 * k) g \<notin> set segs)"
  proof (intro allI impI)
    fix segs assume wf: "wellFormed s" and ra: "readArray s a = Some segs"
    obtain fr s1 where nc: "newCell (drawnCell rnd c g) s = (fr, s1)"
      by (cases "newCell (drawnCell rnd c g) s")
    note ex = newCell_extends(2) [OF nc] and f = newCell_extends(3) [OF nc]
    have wf1: "wellFormed s1" using wf nc by (rule newCell_wellFormed)
    have ra1: "readArray s1 a = Some segs" using wf ex ra by (rule readArray_extends)
    show "\<exists>k. drawnCell rnd (c + 2 * k) g \<notin> set segs"
    proof (cases "drawnCell rnd c g \<in> set segs")
      case False
      then show ?thesis by (intro exI [of _ 0]) simp
    next
      case True
      from body have "(case newCell (drawnCell rnd c g) s of
                  (foodRef, s1) \<Rightarrow>
                    (case (cells s1 foodRef, readArray s1 a) of
                       (Some food', Some segments) \<Rightarrow>
                         if list_ex (\<lambda>segment. posX segment = posX food' \<and> posY segment = posY food')
                              segments
                         then loop rnd (c + 2) g a s1
                         else Some (Inr (foodRef, c + 2, s1))
                     | _ \<Rightarrow> Some (Inl TypeError))) = Some r"
        unfolding drawnCell_def .
      with True have "loop rnd (c + 2) g a s1 = Some r"
        unfolding nc by (simp add: f ra1 occupied_iff)
      from IH [OF this] wf1 ra1 obtain k where "drawnCell rnd (c + 2 + 2 * k) g \<notin> set segs"
        by blast
      then show ?thesis
        by (intro exI [of _ "Suc k"]) (simp add: add.assoc)
    qed
  qed
qed

lemma generateRandomFood_store_None:
  assumes wf: "wellFormed s" and ra: "readArray s a = Some segs"
    and n: "generateRandomFood rnd c g segs = None"
  shows "generateRandomFood_store rnd c g a s = None"
proof (cases "generateRandomFood_store rnd c g a s")
  case None
  then show ?thesis .
next
  case (Some r)
  from generateRandomFood_store_sound [OF this] wf ra
  obtain k where "drawnCell rnd (c + 2 * k) g \<notin> set segs" by blast
  with n show ?thesis
    unfolding generateRandomFood_None_iff by blast
qed

lemma generateRandomFood_store_Some:
  assumes wf: "wellFormed s" and ra: "readArray s a = Some segs"
    and v: "generateRandomFood rnd c g segs = Some (f, c1)"
  shows "\<exists>fr s'. generateRandomFood_store rnd c g a s = Some (Inr (fr, c1, s'))
           \<and> cells s' fr = Some f \<and> extends s s' \<and> wellFormed s'"
proof -
  from generateRandomFood_sound [OF v] obtain k where
    "f = drawnCell rnd (c + 2 * k) g" and "c1 = c + 2 * k + 2"
    and "drawnCell rnd (c + 2 * k) g \<notin> set segs"
    and "\<forall>j<k. drawnCell rnd (c + 2 * j) g \<in> set segs"
    unfolding firstFree_def by auto
  with generateRandomFood_store_returns [OF wf ra, of rnd c k g] show ?thesis
    by simp
qed

lemma simulatePlayerTick_store_Cons:
  assumes wf: "wellFormed s" and ob: "players s r = Some ob"
    and arr: "arrays s (o_snake ob) = Some (hr # rr)"
    and hd: "cells s hr = Some h" and fd: "cells s (o_food ob) = Some f"
    and s1: "newCell (spectatorStep g h (o_direction ob)) s = (a1, s1)"
    and s2: "newArray (a1 # hr # rr) s1 = (a2, s2)"
  shows "simulatePlayerTick_store rnd c r g s =
           (if spectatorStep g h (o_direction ob) = f
            then (case generateRandomFood_store rnd c g a2 s2 of
                    None \<Rightarrow> None
                  | Some (Inl e) \<Rightarrow> Some (Inl e)
                  | Some (Inr (fr, c1, s3)) \<Rightarrow>
                      Some (Inr (finishTick rnd ob a2 fr (o_score ob + 10) c1 s3)))
            else Some (Inr (finishTick rnd ob a2 (o_food ob) (o_score ob) c (popArray a2 s2))))"
proof -
  have wf1: "wellFormed s1" using wf s1 by (rule newCell_wellFormed)
  have ex2: "extends s1 s2" using s2 by (rule newArray_extends(2))
  have c1: "cells s1 a1 = Some (spectatorStep g h (o_direction ob))"
    using s1 by (rule newCell_extends(3))
  have nh: "cells s2 a1 = Some (spectatorStep g h (o_direction ob))"
    using wf1 ex2 c1 by (rule cells_extends)
  have fd1: "cells s1 (o_food ob) = Some f"
    using wf newCell_extends(2) [OF s1] fd by (rule cells_extends)
  have fd2: "cells s2 (o_food ob) = Some f"
    using wf1 ex2 fd1 by (rule cells_extends)
  have cond: "(posX (spectatorStep g h (o_direction ob)) = posX f
               \<and> posY (spectatorStep g h (o_direction ob)) = posY f)
              = (spectatorStep g h (o_direction ob) = f)"
    by (simp add: Position_eq_iff)
  have eq: "simulatePlayerTick_store rnd c r g s =
      (case (if spectatorStep g h (o_direction ob) = f
             then (case generateRandomFood_store rnd c g a2 s2 of
                     None \<Rightarrow> None
                   | Some (Inl e) \<Rightarrow> Some (Inl e)
                   | Some (Inr (newFoodRef, c1, s3)) \<Rightarrow>
                       Some (Inr (newFoodRef, o_score ob + 10, c1, s3)))
             else Some (Inr (o_food ob, o_score ob, c, popArray a2 s2)))
       of
         None \<Rightarrow> None
       | Some (Inl e) \<Rightarrow> Some (Inl e)
       | Some (Inr (newFoodRef, newScore, c1, s4)) \<Rightarrow>
           (case chooseDirection rnd c1 (o_direction ob) of
              (newDirection, c2) \<Rightarrow>
                (case newPlayer (ob\<lparr>o_snake := a2, o_food := newFoodRef,
                                      o_direction := newDirection,
                                      o_score := newScore\<rparr>) s4 of
                   (resultRef, s5) \<Rightarrow> Some (Inr (resultRef, c2, s5)))))"
    by (simp add: simulatePlayerTick_store_def ob arr hd s1 s2 nh fd2 cond)
  show ?thesis
  proof (cases "spectatorStep g h (o_direction ob) = f")
    case False
    obtain d' c2 where "chooseDirection rnd c (o_direction ob) = (d', c2)"
      by (cases "chooseDirection rnd c (o_direction ob)")
    with False show ?thesis unfolding eq by (simp add: finishTick_def newPlayer_def)
  next
    case True
    show ?thesis
    proof (cases "generateRandomFood_store rnd c g a2 s2")
      case None
      with True show ?thesis unfolding eq by simp
    next
      case (Some res)
      show ?thesis
      proof (cases res)
        case (Inl e)
        with Some True show ?thesis unfolding eq by simp
      next
        case (Inr t)
        obtain fr c1 s3 where t: "t = (fr, c1, s3)" by (cases t)
        obtain d' c2 where "chooseDirection rnd c1 (o_direction ob) = (d', c2)"
          by (cases "chooseDirection rnd c1 (o_direction ob)")
        with t Inr Some True show ?thesis unfolding eq
          by (simp add: finishTick_def newPlayer_def)
      qed
    qed
  qed
qed

lemma snapshot_SomeD:
  assumes "snapshot s r = Some p"
  obtains ob refs where "players s r = Some ob" and "arrays s (o_snake ob) = Some refs"
    and "map (cells s) refs = map Some (lp_snake p)"
    and "readArray s (o_snake ob) = Some (lp_snake p)"
    and "cells s (o_food ob) = Some (lp_food p)"
    and "o_direction ob = lp_direction p" and "o_score ob = lp_score p"
    and "p = \<lparr>lp_id = o_id ob, lp_username = o_username ob, lp_avatar = o_avatar ob,
               lp_score = o_score ob, lp_mode = o_mode ob, lp_snake = lp_snake p,
               lp_food = lp_food p, lp_direction = o_direction ob, lp_status = o_status ob,
               lp_viewers = o_viewers ob\<rparr>"
  using assms
  by (auto simp: snapshot_def readArray_def those_map_Some split: option.splits)

lemma popArray_read:
  assumes "readArray s a = Some segs"
  shows "readArray (popArray a s) a = Some (butlast segs)"
proof -
  from assms obtain refs where refs: "arrays s a = Some refs"
    and th: "map (cells s) refs = map Some segs"
    by (auto simp: readArray_def those_map_Some split: option.splits)
  from th have "map (cells s) (butlast refs) = map Some (butlast segs)"
    by (simp add: map_butlast)
  with refs show ?thesis
    by (simp add: readArray_def popArray_def those_map_Some)
qed

lemma popArray_cells: "cells (popArray a s) = cells s"
  by (simp add: popArray_def split: option.splits)

text \<open>
  A \<open>pop\<close> on an array of the store it starts from is a change that \<open>untouched\<close> sees.
\<close>

lemma popArray_seen:
  assumes "arrays s a = Some refs" and "refs \<noteq> []"
  shows "\<not> untouched s (popArray a s)"
proof
  assume "untouched s (popArray a s)"
  with assms(1) have "arrays (popArray a s) a = arrays s a"
    by (auto simp: untouched_def)
  with assms(1) have "butlast refs = refs"
    by (simp add: popArray_def)
  moreover from assms(2) obtain ys y where "refs = ys @ [y]"
    by (cases refs rule: rev_cases) auto
  ultimately show False
    by simp
qed

lemma finishTick_snapshot:
  assumes wf: "wellFormed s4" and ra: "readArray s4 a = Some segs"
    and fd: "cells s4 fr = Some f"
  shows "snapshot (snd (snd (finishTick rnd ob a fr sc c1 s4)))
                  (fst (finishTick rnd ob a fr sc c1 s4))
           = Some \<lparr>lp_id = o_id ob, lp_username = o_username ob, lp_avatar = o_avatar ob,
                   lp_score = sc, lp_mode = o_mode ob, lp_snake = segs, lp_food = f,
                   lp_direction = fst (chooseDirection rnd c1 (o_direction ob)),
                   lp_status = o_status ob, lp_viewers = o_viewers ob\<rparr>"
    and "extends s4 (snd (snd (finishTick rnd ob a fr sc c1 s4)))"
    and "wellFormed (snd (snd (finishTick rnd ob a fr sc c1 s4)))"
    and "fst (finishTick rnd ob a fr sc c1 s4) = fresh s4"
    and "fst (snd (finishTick rnd ob a fr sc c1 s4)) = snd (chooseDirection rnd c1 (o_direction ob))"
proof -
  let ?ob = "ob\<lparr>o_snake := a, o_food := fr,
                 o_direction := fst (chooseDirection rnd c1 (o_direction ob)), o_score := sc\<rparr>"
  obtain r' s' where np: "newPlayer ?ob s4 = (r', s')"
    by (cases "newPlayer ?ob s4")
  then have ft: "finishTick rnd ob a fr sc c1 s4
                   = (fresh s4, snd (chooseDirection rnd c1 (o_direction ob)), s')"
    by (simp add: finishTick_def)
  have ex: "extends s4 s'" using np by (rule newPlayer_extends(2))
  have wf': "wellFormed s'" using wf np by (rule newPlayer_wellFormed)
  have pl: "players s' (fresh s4) = Some ?ob"
    using newPlayer_extends(1,3) [OF np] by simp
  have ra': "readArray s' a = Some segs" using wf ex ra by (rule readArray_extends)
  have fd': "cells s' fr = Some f" using wf ex fd by (rule cells_extends)
  show "snapshot (snd (snd (finishTick rnd ob a fr sc c1 s4)))
                  (fst (finishTick rnd ob a fr sc c1 s4))
           = Some \<lparr>lp_id = o_id ob, lp_username = o_username ob, lp_avatar = o_avatar ob,
                   lp_score = sc, lp_mode = o_mode ob, lp_snake = segs, lp_food = f,
                   lp_direction = fst (chooseDirection rnd c1 (o_direction ob)),
                   lp_status = o_status ob, lp_viewers = o_viewers ob\<rparr>"
    unfolding ft by (simp add: snapshot_def pl ra' fd')
  show "extends s4 (snd (snd (finishTick rnd ob a fr sc c1 s4)))"
    unfolding ft using ex by simp
  show "wellFormed (snd (snd (finishTick rnd ob a fr sc c1 s4)))"
    unfolding ft using wf' by simp
  show "fst (finishTick rnd ob a fr sc c1 s4) = fresh s4"
    unfolding ft by simp
  show "fst (snd (finishTick rnd ob a fr sc c1 s4)) = snd (chooseDirection rnd c1 (o_direction ob))"
    unfolding ft by simp
qed

lemma simulatePlayerTick_store_refines:
  assumes wf: "wellFormed s" and sn: "snapshot s r = Some p"
  shows "case simulatePlayerTick rnd c p g of
           None \<Rightarrow> simulatePlayerTick_store rnd c r g s = None
         | Some (Inl e) \<Rightarrow> simulatePlayerTick_store rnd c r g s = Some (Inl e)
         | Some (Inr (p', c')) \<Rightarrow>
             (\<exists>r' s'. simulatePlayerTick_store rnd c r g s = Some (Inr (r', c', s'))
                      \<and> snapshot s' r' = Some p' \<and> fresh s \<le> r'
                      \<and> extends s s' \<and> wellFormed s')"
proof -
  from sn obtain ob refs where ob: "players s r = Some ob"
    and arr: "arrays s (o_snake ob) = Some refs"
    and th: "map (cells s) refs = map Some (lp_snake p)"
    and ra: "readArray s (o_snake ob) = Some (lp_snake p)"
    and fd: "cells s (o_food ob) = Some (lp_food p)"
    and dir: "o_direction ob = lp_direction p" and sc: "o_score ob = lp_score p"
    and p: "p = \<lparr>lp_id = o_id ob, lp_username = o_username ob, lp_avatar = o_avatar ob,
               lp_score = o_score ob, lp_mode = o_mode ob, lp_snake = lp_snake p,
               lp_food = lp_food p, lp_direction = o_direction ob, lp_status = o_status ob,
               lp_viewers = o_viewers ob\<rparr>"
    by (rule snapshot_SomeD)
  show ?thesis
  proof (cases "lp_snake p")
    case Nil
    with th have "refs = []" by simp
    with arr ob have "simulatePlayerTick_store rnd c r g s = Some (Inl TypeError)"
      by (simp add: simulatePlayerTick_store_def)
    moreover from Nil have "simulatePlayerTick rnd c p g = Some (Inl TypeError)"
      by (simp add: simulatePlayerTick_def)
    ultimately show ?thesis by simp
  next
    case (Cons h rest)
    with th obtain hr rr where refs: "refs = hr # rr" and hd: "cells s hr = Some h"
      by (cases refs) auto
    let ?nh = "spectatorStep g h (o_direction ob)"
    obtain a1 s1 where s1: "newCell ?nh s = (a1, s1)"
      by (cases "newCell ?nh s")
    obtain a2 s2 where s2: "newArray (a1 # hr # rr) s1 = (a2, s2)"
      by (cases "newArray (a1 # hr # rr) s1")
    note eq = simulatePlayerTick_store_Cons [OF wf ob arr [unfolded refs] hd fd s1 s2, of rnd c]
    have wf1: "wellFormed s1" using wf s1 by (rule newCell_wellFormed)
    have wf2: "wellFormed s2" using wf1 s2 by (rule newArray_wellFormed)
    have ex1: "extends s s1" using s1 by (rule newCell_extends(2))
    have ex12: "extends s1 s2" using s2 by (rule newArray_extends(2))
    have ex2: "extends s s2" using ex1 ex12 by (rule extends_trans)
    have a2: "fresh s \<le> a2"
      using newCell_extends(4) [OF s1] newArray_extends(1) [OF s2] by simp
    have nh: "cells s2 a1 = Some ?nh"
      using wf1 ex12 newCell_extends(3) [OF s1] by (rule cells_extends)
    have "readArray s2 (o_snake ob) = Some (h # rest)"
      using wf ex2 ra [unfolded Cons] by (rule readArray_extends)
    moreover have "o_snake ob < fresh s"
      using wf arr unfolding wellFormed_iff by blast
    with ex2 arr refs have "arrays s2 (o_snake ob) = Some (hr # rr)"
      by (simp add: extends_def)
    ultimately have "those (map (cells s2) (hr # rr)) = Some (h # rest)"
      by (simp add: readArray_def)
    with nh newArray_extends(3) [OF s2]
    have ra2: "readArray s2 a2 = Some (?nh # h # rest)"
      by (simp add: readArray_def)
    have fd2: "cells s2 (o_food ob) = Some (lp_food p)"
      using wf ex2 fd by (rule cells_extends)
    show ?thesis
    proof (cases "?nh = lp_food p")
      case False
      let ?s4 = "popArray a2 s2"
      let ?t = "finishTick rnd ob a2 (o_food ob) (o_score ob) c ?s4"
      from False have S: "simulatePlayerTick_store rnd c r g s = Some (Inr ?t)"
        unfolding eq by simp
      have wf4: "wellFormed ?s4" using wf2 by (rule popArray_wellFormed)
      have ex4: "extends s ?s4" using ex2 a2 by (rule popArray_extends)
      have ra4: "readArray ?s4 a2 = Some (?nh # butlast (h # rest))"
        using popArray_read [OF ra2] by simp
      have fd4: "cells ?s4 (o_food ob) = Some (lp_food p)"
        using fd2 by (simp add: popArray_cells)
      note fin = finishTick_snapshot [OF wf4 ra4 fd4, of rnd ob "o_score ob" c]
      from False Cons
      have V: "simulatePlayerTick rnd c p g =
           Some (Inr (p\<lparr>lp_snake := ?nh # butlast (h # rest),
                          lp_food := lp_food p,
                          lp_direction := fst (chooseDirection rnd c (lp_direction p)),
                          lp_score := lp_score p\<rparr>,
                      snd (chooseDirection rnd c (lp_direction p))))"
        unfolding dir by (intro simulatePlayerTick_advance)
      have rec: "p\<lparr>lp_snake := ?nh # butlast (h # rest), lp_food := lp_food p,
               lp_direction := fst (chooseDirection rnd c (lp_direction p)),
               lp_score := lp_score p\<rparr>
            = \<lparr>lp_id = o_id ob, lp_username = o_username ob, lp_avatar = o_avatar ob,
                   lp_score = o_score ob, lp_mode = o_mode ob,
                   lp_snake = ?nh # butlast (h # rest), lp_food = lp_food p,
                   lp_direction = fst (chooseDirection rnd c (o_direction ob)),
                   lp_status = o_status ob, lp_viewers = o_viewers ob\<rparr>"
        by (subst p) (simp add: dir sc)
      have snap: "snapshot (snd (snd ?t)) (fst ?t)
            = Some (p\<lparr>lp_snake := ?nh # butlast (h # rest), lp_food := lp_food p,
                        lp_direction := fst (chooseDirection rnd c (lp_direction p)),
                        lp_score := lp_score p\<rparr>)"
        unfolding rec by (rule fin(1))
      have "extends s (snd (snd ?t))" using ex4 fin(2) by (rule extends_trans)
      moreover have "fresh s \<le> fst ?t"
        using fin(4) ex4 by (simp add: extends_def)
      moreover have "?t = (fst ?t, snd (chooseDirection rnd c (lp_direction p)), snd (snd ?t))"
        using fin(5) by (simp add: dir prod_eq_iff)
      ultimately show ?thesis
        unfolding V using S snap fin(3) by (simp only: option.case sum.case prod.case) metis
    next
      case True
      from True Cons
      have V: "simulatePlayerTick rnd c p g =
           (case generateRandomFood rnd c g (lp_food p # h # rest) of
              None \<Rightarrow> None
            | Some (f, c1) \<Rightarrow>
                Some (Inr (p\<lparr>lp_snake := lp_food p # h # rest, lp_food := f,
                             lp_direction := fst (chooseDirection rnd c1 (lp_direction p)),
                             lp_score := lp_score p + 10\<rparr>,
                           snd (chooseDirection rnd c1 (lp_direction p)))))"
        unfolding dir by (intro simulatePlayerTick_eat)
      from ra2 True have ra2': "readArray s2 a2 = Some (lp_food p # h # rest)"
        by simp
      show ?thesis
      proof (cases "generateRandomFood rnd c g (lp_food p # h # rest)")
        case None
        from wf2 ra2' this have "generateRandomFood_store rnd c g a2 s2 = None"
          by (rule generateRandomFood_store_None)
        with True have "simulatePlayerTick_store rnd c r g s = None"
          unfolding eq by simp
        with None show ?thesis unfolding V by simp
      next
        case (Some y)
        obtain f c1 where y: "y = (f, c1)" by (cases y)
        from generateRandomFood_store_Some [OF wf2 ra2' Some [unfolded y]]
        obtain fr s3 where gen: "generateRandomFood_store rnd c g a2 s2 = Some (Inr (fr, c1, s3))"
          and fd3: "cells s3 fr = Some f" and ex23: "extends s2 s3" and wf3: "wellFormed s3"
          by blast
        let ?t = "finishTick rnd ob a2 fr (o_score ob + 10) c1 s3"
        from True gen have S: "simulatePlayerTick_store rnd c r g s = Some (Inr ?t)"
          unfolding eq by simp
        have ra3: "readArray s3 a2 = Some (lp_food p # h # rest)"
          using wf2 ex23 ra2' by (rule readArray_extends)
        have ex3: "extends s s3" using ex2 ex23 by (rule extends_trans)
        note fin = finishTick_snapshot [OF wf3 ra3 fd3, of rnd ob "o_score ob + 10" c1]
        have rec: "p\<lparr>lp_snake := lp_food p # h # rest, lp_food := f,
                 lp_direction := fst (chooseDirection rnd c1 (lp_direction p)),
                 lp_score := lp_score p + 10\<rparr>
              = \<lparr>lp_id = o_id ob, lp_username = o_username ob, lp_avatar = o_avatar ob,
                   lp_score = o_score ob + 10, lp_mode = o_mode ob,
                   lp_snake = lp_food p # h # rest, lp_food = f,
                   lp_direction = fst (chooseDirection rnd c1 (o_direction ob)),
                   lp_status = o_status ob, lp_viewers = o_viewers ob\<rparr>"
          by (subst p) (simp add: dir sc)
        have snap: "snapshot (snd (snd ?t)) (fst ?t)
              = Some (p\<lparr>lp_snake := lp_food p # h # rest, lp_food := f,
                          lp_direction := fst (chooseDirection rnd c1 (lp_direction p)),
                          lp_score := lp_score p + 10\<rparr>)"
          unfolding rec by (rule fin(1))
        have "extends s (snd (snd ?t))" using ex3 fin(2) by (rule extends_trans)
        moreover have "fresh s \<le> fst ?t"
          using fin(4) ex3 by (simp add: extends_def)
        moreover have "?t = (fst ?t, snd (chooseDirection rnd c1 (lp_direction p)), snd (snd ?t))"
          using fin(5) by (simp add: dir prod_eq_iff)
        ultimately show ?thesis
          unfolding V Some y using S snap fin(3)
          by (simp only: option.case sum.case prod.case) metis
      qed
    qed
  qed
qed

subsection \<open>The tick of the simulation\<close>

text \<open>
  C9, as stated, fails: the snake of \<open>crowdedPlayer\<close> is non-empty with its head on the
  board; the step takes the food on the last free cell, the new snake covers the board,
  and \<open>simulatePlayerTick\<close> never returns, whatever the random outcomes.
\<close>

theorem spectator_hangs_counterexample:
  "lp_snake crowdedPlayer \<noteq> []
   \<and> inGrid 20 (hd (lp_snake crowdedPlayer))
   \<and> simulatePlayerTick (\<lambda>i. i) 0 crowdedPlayer 20 = None"
proof -
  have s: "lp_snake crowdedPlayer
             = \<lparr>posX = 0, posY = 1\<rparr> # tl (tl boardPath)"
    by (simp add: crowdedPlayer_def boardPath_Cons del: upt_rec_numeral)
  have step: "spectatorStep 20 \<lparr>posX = 0, posY = 1\<rparr> (lp_direction crowdedPlayer)
                = lp_food crowdedPlayer"
    by (simp add: crowdedPlayer_def jsRem_def)
  have "lp_food crowdedPlayer # \<lparr>posX = 0, posY = 1\<rparr> # tl (tl boardPath) = boardPath"
    by (simp add: crowdedPlayer_def boardPath_Cons del: upt_rec_numeral)
  with simulatePlayerTick_eat [OF s step, of "\<lambda>i. i" 0]
  have "simulatePlayerTick (\<lambda>i. i) 0 crowdedPlayer 20 = None"
    by (simp add: generateRandomFood_boardPath)
  with s show ?thesis
    by (simp add: inGrid_def)
qed

text \<open>
  C9, amended.  On the empty snake \<open>simulatePlayerTick\<close> throws.  On a grid of positive
  size, for every snapshot with a non-empty snake, whatever its mode and status: the new
  head is the head moved one cell in the current direction (for a head on the grid, its
  neighbour on the torus, whatever the mode).  If the new head is not on the food, the
  result is the snapshot with the new head in front and the last segment dropped; length,
  food, score, status and mode are unchanged.  If the new head is on the food and some
  draw falls outside the new snake, the result has the new head in front of the whole
  snake (length plus one), the score plus 10, and as food the first drawn cell outside the
  new snake; status and mode are unchanged.  If the new head is on the food and no draw
  ever falls outside the new snake, \<open>simulatePlayerTick\<close> does not return.  In every result
  the direction is the one \<open>chooseDirection\<close> picks, which is never the reversal of the
  current direction.

  The input is not mutated: in a well-formed store \<open>s\<close> where the reference \<open>r\<close> denotes the
  snapshot \<open>p\<close>, \<open>simulatePlayerTick_store\<close> on \<open>r\<close> does what \<open>simulatePlayerTick\<close> does on \<open>p\<close>
  (it hangs, throws or returns alike), and when it returns, the reference returned is
  not one of a player object of \<open>s\<close> and denotes the result, every cell, array and player
  object of \<open>s\<close> is in the final store as it was, and \<open>r\<close> still denotes \<open>p\<close>.
\<close>

theorem spectator_rule:
  "(lp_snake p = [] \<longrightarrow> simulatePlayerTick rnd c p g = Some (Inl TypeError))
   \<and> (0 < g \<and> lp_snake p = h # rest \<longrightarrow>
        (inGrid g h \<longrightarrow>
           spectatorStep g h (lp_direction p) = torusStep g h (lp_direction p)
           \<and> inGrid g (spectatorStep g h (lp_direction p)))
        \<and> (spectatorStep g h (lp_direction p) \<noteq> lp_food p \<longrightarrow>
             (\<exists>p' d' c'.
                simulatePlayerTick rnd c p g = Some (Inr (p', c'))
                \<and> p' = p\<lparr>lp_snake := spectatorStep g h (lp_direction p) # butlast (h # rest),
                         lp_direction := d'\<rparr>
                \<and> (d', c') = chooseDirection rnd c (lp_direction p)
                \<and> d' \<noteq> getOppositeDirection (lp_direction p)
                \<and> length (lp_snake p') = length (lp_snake p)
                \<and> lp_food p' = lp_food p \<and> lp_score p' = lp_score p
                \<and> lp_status p' = lp_status p \<and> lp_mode p' = lp_mode p))
        \<and> (spectatorStep g h (lp_direction p) = lp_food p \<longrightarrow>
             ((\<forall>k. drawnCell rnd (c + 2 * k) g \<in> set (lp_food p # h # rest))
                \<longrightarrow> simulatePlayerTick rnd c p g = None)
             \<and> ((\<exists>k. drawnCell rnd (c + 2 * k) g \<notin> set (lp_food p # h # rest))
                \<longrightarrow> (\<exists>p' f c1 d' c'.
                      simulatePlayerTick rnd c p g = Some (Inr (p', c'))
                      \<and> p' = p\<lparr>lp_snake := lp_food p # h # rest, lp_food := f,
                               lp_direction := d', lp_score := lp_score p + 10\<rparr>
                      \<and> firstFree rnd c g (lp_food p # h # rest) (f, c1)
                      \<and> f \<notin> set (lp_snake p')
                      \<and> (d', c') = chooseDirection rnd c1 (lp_direction p)
                      \<and> d' \<noteq> getOppositeDirection (lp_direction p)
                      \<and> length (lp_snake p') = length (lp_snake p) + 1
                      \<and> lp_score p' = lp_score p + 10
                      \<and> lp_status p' = lp_status p \<and> lp_mode p' = lp_mode p))))
   \<and> (0 < g \<and> wellFormed s \<and> snapshot s r = Some p \<longrightarrow>
        (simulatePlayerTick rnd c p g = None \<longrightarrow> simulatePlayerTick_store rnd c r g s = None)
        \<and> (\<forall>e. simulatePlayerTick rnd c p g = Some (Inl e)
                \<longrightarrow> simulatePlayerTick_store rnd c r g s = Some (Inl e))
        \<and> (\<forall>p' c'. simulatePlayerTick rnd c p g = Some (Inr (p', c')) \<longrightarrow>
              (\<exists>r' s'. simulatePlayerTick_store rnd c r g s = Some (Inr (r', c', s'))
                       \<and> snapshot s' r' = Some p'
                       \<and> r' \<notin> dom (players s)
                       \<and> untouched s s'
                       \<and> snapshot s' r = Some p
                       \<and> wellFormed s')))"
proof (intro conjI impI allI)
  assume "lp_snake p = []"
  then show "simulatePlayerTick rnd c p g = Some (Inl TypeError)"
    by (simp add: simulatePlayerTick_def)
next
  assume "0 < g \<and> lp_snake p = h # rest" and "inGrid g h"
  then show "spectatorStep g h (lp_direction p) = torusStep g h (lp_direction p)"
    and "inGrid g (spectatorStep g h (lp_direction p))"
    by (simp_all add: spectatorStep_torus torusStep_inGrid)
next
  assume "0 < g \<and> lp_snake p = h # rest"
    and miss: "spectatorStep g h (lp_direction p) \<noteq> lp_food p"
  then have s: "lp_snake p = h # rest" by simp
  obtain d' c' where ch: "chooseDirection rnd c (lp_direction p) = (d', c')"
    by (cases "chooseDirection rnd c (lp_direction p)")
  with chooseDirection_not_opposite [of rnd c "lp_direction p"]
  have "d' \<noteq> getOppositeDirection (lp_direction p)" by simp
  with simulatePlayerTick_advance [OF s miss, of rnd c] ch s
  show "\<exists>p' d' c'.
          simulatePlayerTick rnd c p g = Some (Inr (p', c'))
          \<and> p' = p\<lparr>lp_snake := spectatorStep g h (lp_direction p) # butlast (h # rest),
                   lp_direction := d'\<rparr>
          \<and> (d', c') = chooseDirection rnd c (lp_direction p)
          \<and> d' \<noteq> getOppositeDirection (lp_direction p)
          \<and> length (lp_snake p') = length (lp_snake p)
          \<and> lp_food p' = lp_food p \<and> lp_score p' = lp_score p
          \<and> lp_status p' = lp_status p \<and> lp_mode p' = lp_mode p"
    by simp
next
  assume "0 < g \<and> lp_snake p = h # rest"
    and hit: "spectatorStep g h (lp_direction p) = lp_food p"
    and all: "\<forall>k. drawnCell rnd (c + 2 * k) g \<in> set (lp_food p # h # rest)"
  then have s: "lp_snake p = h # rest" by simp
  from all have "generateRandomFood rnd c g (lp_food p # h # rest) = None"
    by (intro generateRandomFood_diverges)
  with simulatePlayerTick_eat [OF s hit, of rnd c]
  show "simulatePlayerTick rnd c p g = None" by simp
next
  assume "0 < g \<and> lp_snake p = h # rest"
    and hit: "spectatorStep g h (lp_direction p) = lp_food p"
    and some: "\<exists>k. drawnCell rnd (c + 2 * k) g \<notin> set (lp_food p # h # rest)"
  then have s: "lp_snake p = h # rest" by simp
  from some obtain f c1 where gen: "generateRandomFood rnd c g (lp_food p # h # rest) = Some (f, c1)"
    using generateRandomFood_returns by (metis surj_pair)
  then have ff: "firstFree rnd c g (lp_food p # h # rest) (f, c1)"
    by (rule generateRandomFood_sound)
  then have out: "f \<notin> set (lp_food p # h # rest)"
    by (rule firstFree_free)
  obtain d' c' where ch: "chooseDirection rnd c1 (lp_direction p) = (d', c')"
    by (cases "chooseDirection rnd c1 (lp_direction p)")
  with chooseDirection_not_opposite [of rnd c1 "lp_direction p"]
  have turn: "d' \<noteq> getOppositeDirection (lp_direction p)" by simp
  let ?p' = "p\<lparr>lp_snake := lp_food p # h # rest, lp_food := f,
                lp_direction := d', lp_score := lp_score p + 10\<rparr>"
  from simulatePlayerTick_eat [OF s hit, of rnd c] gen ch
  have "simulatePlayerTick rnd c p g = Some (Inr (?p', c'))"
    by simp
  with ff out turn ch s
  show "\<exists>p' f c1 d' c'.
          simulatePlayerTick rnd c p g = Some (Inr (p', c'))
          \<and> p' = p\<lparr>lp_snake := lp_food p # h # rest, lp_food := f,
                   lp_direction := d', lp_score := lp_score p + 10\<rparr>
          \<and> firstFree rnd c g (lp_food p # h # rest) (f, c1)
          \<and> f \<notin> set (lp_snake p')
          \<and> (d', c') = chooseDirection rnd c1 (lp_direction p)
          \<and> d' \<noteq> getOppositeDirection (lp_direction p)
          \<and> length (lp_snake p') = length (lp_snake p) + 1
          \<and> lp_score p' = lp_score p + 10
          \<and> lp_status p' = lp_status p \<and> lp_mode p' = lp_mode p"
    by (intro exI [of _ ?p'] exI [of _ f] exI [of _ c1] exI [of _ d'] exI [of _ c']) simp
next
  assume "0 < g \<and> wellFormed s \<and> snapshot s r = Some p"
  then have wf: "wellFormed s" and sn: "snapshot s r = Some p" by simp_all
  assume "simulatePlayerTick rnd c p g = None"
  with simulatePlayerTick_store_refines [OF wf sn, of rnd c g]
  show "simulatePlayerTick_store rnd c r g s = None" by simp
next
  fix e
  assume "0 < g \<and> wellFormed s \<and> snapshot s r = Some p"
  then have wf: "wellFormed s" and sn: "snapshot s r = Some p" by simp_all
  assume "simulatePlayerTick rnd c p g = Some (Inl e)"
  with simulatePlayerTick_store_refines [OF wf sn, of rnd c g]
  show "simulatePlayerTick_store rnd c r g s = Some (Inl e)" by simp
next
  fix p' c'
  assume "0 < g \<and> wellFormed s \<and> snapshot s r = Some p"
  then have wf: "wellFormed s" and sn: "snapshot s r = Some p" by simp_all
  assume "simulatePlayerTick rnd c p g = Some (Inr (p', c'))"
  with simulatePlayerTick_store_refines [OF wf sn, of rnd c g]
  obtain r' s' where run: "simulatePlayerTick_store rnd c r g s = Some (Inr (r', c', s'))"
    and new: "snapshot s' r' = Some p'" and fr: "fresh s \<le> r'"
    and ex: "extends s s'" and wf': "wellFormed s'"
    by auto
  from wf fr have "r' \<notin> dom (players s)"
    unfolding wellFormed_def by auto
  with run new extends_untouched [OF wf ex] snapshot_extends [OF wf ex sn] wf'
  show "\<exists>r' s'. simulatePlayerTick_store rnd c r g s = Some (Inr (r', c', s'))
                 \<and> snapshot s' r' = Some p'
                 \<and> r' \<notin> dom (players s)
                 \<and> untouched s s'
                 \<and> snapshot s' r = Some p
                 \<and> wellFormed s'"
    by blast
qed

theorem spectator_rule_witness:
  "simulatePlayerTick (\<lambda>i. i) 0
     \<lparr>lp_id = ''live1'', lp_username = ''StreamerPro'', lp_avatar = None, lp_score = 340,
      lp_mode = Walls,
      lp_snake = [\<lparr>posX = 19, posY = 5\<rparr>, \<lparr>posX = 18, posY = 5\<rparr>, \<lparr>posX = 17, posY = 5\<rparr>],
      lp_food = \<lparr>posX = 0, posY = 5\<rparr>, lp_direction = RIGHT, lp_status = Paused,
      lp_viewers = 42\<rparr> 20
   = Some (Inr (\<lparr>lp_id = ''live1'', lp_username = ''StreamerPro'', lp_avatar = None,
                 lp_score = 350, lp_mode = Walls,
                 lp_snake = [\<lparr>posX = 0, posY = 5\<rparr>, \<lparr>posX = 19, posY = 5\<rparr>,
                             \<lparr>posX = 18, posY = 5\<rparr>, \<lparr>posX = 17, posY = 5\<rparr>],
                 lp_food = \<lparr>posX = 0, posY = 1\<rparr>, lp_direction = UP, lp_status = Paused,
                 lp_viewers = 42\<rparr>, 4))
   \<and> simulatePlayerTick (\<lambda>i. i) 0
     \<lparr>lp_id = ''live1'', lp_username = ''StreamerPro'', lp_avatar = None, lp_score = 340,
      lp_mode = Walls,
      lp_snake = [\<lparr>posX = 19, posY = 5\<rparr>, \<lparr>posX = 18, posY = 5\<rparr>, \<lparr>posX = 17, posY = 5\<rparr>],
      lp_food = \<lparr>posX = 10, posY = 10\<rparr>, lp_direction = RIGHT, lp_status = Paused,
      lp_viewers = 42\<rparr> 20
   = Some (Inr (\<lparr>lp_id = ''live1'', lp_username = ''StreamerPro'', lp_avatar = None,
                 lp_score = 340, lp_mode = Walls,
                 lp_snake = [\<lparr>posX = 0, posY = 5\<rparr>, \<lparr>posX = 19, posY = 5\<rparr>,
                             \<lparr>posX = 18, posY = 5\<rparr>],
                 lp_food = \<lparr>posX = 10, posY = 10\<rparr>, lp_direction = DOWN, lp_status = Paused,
                 lp_viewers = 42\<rparr>, 2))
   \<and> (\<exists>r' s'.
         simulatePlayerTick_store (\<lambda>i. i) 0 5 20
           \<lparr>cells = [0 \<mapsto> \<lparr>posX = 19, posY = 5\<rparr>, 1 \<mapsto> \<lparr>posX = 18, posY = 5\<rparr>,
                     2 \<mapsto> \<lparr>posX = 17, posY = 5\<rparr>, 3 \<mapsto> \<lparr>posX = 10, posY = 10\<rparr>],
            arrays = [4 \<mapsto> [0, 1, 2]],
            players = [5 \<mapsto> \<lparr>o_id = ''live1'', o_username = ''StreamerPro'', o_avatar = None,
                               o_score = 340, o_mode = Walls, o_snake = 4, o_food = 3,
                               o_direction = RIGHT, o_status = Paused, o_viewers = 42\<rparr>],
            fresh = 6\<rparr>
           = Some (Inr (r', 2, s'))
         \<and> r' \<noteq> 5
         \<and> snapshot s' r'
             = Some \<lparr>lp_id = ''live1'', lp_username = ''StreamerPro'', lp_avatar = None,
                     lp_score = 340, lp_mode = Walls,
                     lp_snake = [\<lparr>posX = 0, posY = 5\<rparr>, \<lparr>posX = 19, posY = 5\<rparr>,
                                 \<lparr>posX = 18, posY = 5\<rparr>],
                     lp_food = \<lparr>posX = 10, posY = 10\<rparr>, lp_direction = DOWN,
                     lp_status = Paused, lp_viewers = 42\<rparr>
         \<and> snapshot s' 5
             = Some \<lparr>lp_id = ''live1'', lp_username = ''StreamerPro'', lp_avatar = None,
                     lp_score = 340, lp_mode = Walls,
                     lp_snake = [\<lparr>posX = 19, posY = 5\<rparr>, \<lparr>posX = 18, posY = 5\<rparr>,
                                 \<lparr>posX = 17, posY = 5\<rparr>],
                     lp_food = \<lparr>posX = 10, posY = 10\<rparr>, lp_direction = RIGHT,
                     lp_status = Paused, lp_viewers = 42\<rparr>
         \<and> arrays s' 4 = Some [0, 1, 2]
         \<and> cells s' 2 = Some \<lparr>posX = 17, posY = 5\<rparr>)"
proof -
  let ?h = "\<lparr>posX = 19, posY = 5\<rparr>"
  let ?rest = "[\<lparr>posX = 18, posY = 5\<rparr>, \<lparr>posX = 17, posY = 5\<rparr>]"
  let ?f = "\<lparr>posX = 0, posY = 5\<rparr>"
  let ?eat = "\<lparr>lp_id = ''live1'', lp_username = ''StreamerPro'', lp_avatar = None,
      lp_score = 340, lp_mode = Walls, lp_snake = ?h # ?rest,
      lp_food = ?f, lp_direction = RIGHT, lp_status = Paused, lp_viewers = 42\<rparr>"
  let ?go = "\<lparr>lp_id = ''live1'', lp_username = ''StreamerPro'', lp_avatar = None,
      lp_score = 340, lp_mode = Walls, lp_snake = ?h # ?rest,
      lp_food = \<lparr>posX = 10, posY = 10\<rparr>, lp_direction = RIGHT, lp_status = Paused,
      lp_viewers = 42\<rparr>"
  let ?S = "\<lparr>cells = [0 \<mapsto> \<lparr>posX = 19, posY = 5\<rparr>, 1 \<mapsto> \<lparr>posX = 18, posY = 5\<rparr>,
                     2 \<mapsto> \<lparr>posX = 17, posY = 5\<rparr>, 3 \<mapsto> \<lparr>posX = 10, posY = 10\<rparr>],
            arrays = [4 \<mapsto> [0, 1, 2]],
            players = [5 \<mapsto> \<lparr>o_id = ''live1'', o_username = ''StreamerPro'', o_avatar = None,
                               o_score = 340, o_mode = Walls, o_snake = 4, o_food = 3,
                               o_direction = RIGHT, o_status = Paused, o_viewers = 42\<rparr>],
            fresh = 6::nat\<rparr>"
  have snake_eat: "lp_snake ?eat = ?h # ?rest" and snake_go: "lp_snake ?go = ?h # ?rest"
    by simp_all
  have hit: "spectatorStep 20 ?h (lp_direction ?eat) = lp_food ?eat"
    and miss: "spectatorStep 20 ?h (lp_direction ?go) \<noteq> lp_food ?go"
    by (simp_all add: jsRem_def)
  have cell: "drawnCell (\<lambda>i. i) 0 20 = \<lparr>posX = 0, posY = 1\<rparr>"
    by (simp add: drawnCell_def randomBelow_def)
  then have free: "drawnCell (\<lambda>i. i) 0 20 \<notin> set (?f # ?h # ?rest)"
    by simp
  from firstFree_here [OF this] cell
  have first: "firstFree (\<lambda>i. i) 0 20 (?f # ?h # ?rest) (\<lparr>posX = 0, posY = 1\<rparr>, 2)"
    by (simp add: numeral_2_eq_2)
  from free have draws: "\<exists>k. drawnCell (\<lambda>i. i) (0 + 2 * k) 20 \<notin> set (lp_food ?eat # ?h # ?rest)"
    by (intro exI [of _ 0]) simp
  have pos: "(0::int) < 20" by simp
  from spectator_rule [of ?eat "\<lambda>i. i" 0 20 ?h ?rest] pos snake_eat hit draws
  have "\<exists>p' f c1 d' c'.
          simulatePlayerTick (\<lambda>i. i) 0 ?eat 20 = Some (Inr (p', c'))
          \<and> p' = ?eat\<lparr>lp_snake := lp_food ?eat # ?h # ?rest, lp_food := f,
                      lp_direction := d', lp_score := lp_score ?eat + 10\<rparr>
          \<and> firstFree (\<lambda>i. i) 0 20 (lp_food ?eat # ?h # ?rest) (f, c1)
          \<and> (d', c') = chooseDirection (\<lambda>i. i) c1 (lp_direction ?eat)"
    by blast
  then obtain p' f c1 d' c' where
    t: "simulatePlayerTick (\<lambda>i. i) 0 ?eat 20 = Some (Inr (p', c'))"
    and p': "p' = ?eat\<lparr>lp_snake := ?f # ?h # ?rest, lp_food := f, lp_direction := d',
                       lp_score := 350\<rparr>"
    and ff: "firstFree (\<lambda>i. i) 0 20 (?f # ?h # ?rest) (f, c1)"
    and ch: "(d', c') = chooseDirection (\<lambda>i. i) c1 RIGHT"
    by auto
  from ff first have "(f, c1) = (\<lparr>posX = 0, posY = 1\<rparr>, 2)"
    by (rule firstFree_unique)
  moreover have "chooseDirection (\<lambda>i. i) 2 RIGHT = (UP, 4)"
    by (simp add: chooseDirection_def randomChance30_def randomBelow_def directions_def)
  ultimately have eat: "simulatePlayerTick (\<lambda>i. i) 0 ?eat 20
      = Some (Inr (?eat\<lparr>lp_snake := ?f # ?h # ?rest, lp_food := \<lparr>posX = 0, posY = 1\<rparr>,
                         lp_direction := UP, lp_score := 350\<rparr>, 4))"
    using t p' ch by simp
  from spectator_rule [of ?go "\<lambda>i. i" 0 20 ?h ?rest] pos snake_go miss
  have "\<exists>p' d' c'.
          simulatePlayerTick (\<lambda>i. i) 0 ?go 20 = Some (Inr (p', c'))
          \<and> p' = ?go\<lparr>lp_snake := spectatorStep 20 ?h (lp_direction ?go) # butlast (?h # ?rest),
                     lp_direction := d'\<rparr>
          \<and> (d', c') = chooseDirection (\<lambda>i. i) 0 (lp_direction ?go)"
    by blast
  moreover have "chooseDirection (\<lambda>i. i) 0 RIGHT = (DOWN, 2)"
    by (simp add: chooseDirection_def randomChance30_def randomBelow_def directions_def)
  ultimately
  have go: "simulatePlayerTick (\<lambda>i. i) 0 ?go 20
          = Some (Inr (?go\<lparr>lp_snake := ?f # butlast (?h # ?rest), lp_direction := DOWN\<rparr>, 2))"
    by (auto simp: jsRem_def)
  have wf: "wellFormed ?S"
    by (simp add: wellFormed_iff)
  have sn: "snapshot ?S 5 = Some ?go"
    by (simp add: snapshot_def readArray_def)
  from spectator_rule [of ?go "\<lambda>i. i" 0 20 _ _ ?S 5] pos wf sn go
  have "\<exists>r' s'. simulatePlayerTick_store (\<lambda>i. i) 0 5 20 ?S = Some (Inr (r', 2, s'))
          \<and> snapshot s' r'
               = Some (?go\<lparr>lp_snake := ?f # butlast (?h # ?rest), lp_direction := DOWN\<rparr>)
          \<and> r' \<notin> dom (players ?S)
          \<and> untouched ?S s'
          \<and> snapshot s' 5 = Some ?go"
    by blast
  then obtain r' s' where run: "simulatePlayerTick_store (\<lambda>i. i) 0 5 20 ?S = Some (Inr (r', 2, s'))"
    and new: "snapshot s' r'
               = Some (?go\<lparr>lp_snake := ?f # butlast (?h # ?rest), lp_direction := DOWN\<rparr>)"
    and other: "r' \<notin> dom (players ?S)" and same: "untouched ?S s'"
    and old: "snapshot s' 5 = Some ?go"
    by blast
  from other have "r' \<noteq> 5" by auto
  moreover from same have "arrays s' 4 = Some [0, 1, 2]"
    and "cells s' 2 = Some \<lparr>posX = 17, posY = 5\<rparr>"
    by (simp_all add: untouched_def)
  ultimately have "\<exists>r' s'. simulatePlayerTick_store (\<lambda>i. i) 0 5 20 ?S = Some (Inr (r', 2, s'))
         \<and> r' \<noteq> 5
         \<and> snapshot s' r'
               = Some (?go\<lparr>lp_snake := ?f # butlast (?h # ?rest), lp_direction := DOWN\<rparr>)
         \<and> snapshot s' 5 = Some ?go
         \<and> arrays s' 4 = Some [0, 1, 2]
         \<and> cells s' 2 = Some \<lparr>posX = 17, posY = 5\<rparr>"
    using run new old by blast
  with eat go show ?thesis by simp
qed

end
